theory Spec2Isabelle
  imports Main "HOL-Library.Word" "HOL-Library.Multiset"
begin

section \<open>The CPU usage monitor (Task2A/monitor.c)\<close>

text \<open>
  A shallow embedding of \<^verbatim>\<open>monitor.c\<close>. The program targets Linux on an LP64
  platform: \<^verbatim>\<open>pid_t\<close> and \<^verbatim>\<open>int\<close> are 32-bit signed, \<^verbatim>\<open>uid_t\<close> and
  \<^verbatim>\<open>unsigned int\<close> are 32-bit unsigned, \<^verbatim>\<open>long\<close> is 64-bit signed and
  \<^verbatim>\<open>unsigned long\<close> and \<^verbatim>\<open>unsigned long long\<close> are 64-bit unsigned. Unsigned
  arithmetic wraps around, as the word types do; a signed value is a word read with
  \<open>sint\<close>.
\<close>

subsection \<open>Data model\<close>

type_synonym pid_t = "32 word"
type_synonym uid_t = "32 word"
type_synonym u64 = "64 word"

definition MAX_USERS :: nat where
  "MAX_USERS = 1024"

definition MAX_PROCS :: nat where
  "MAX_PROCS = 65536"

text \<open>\<^verbatim>\<open>user_cpu_t\<close>: one entry of the per-user table.\<close>

record user_cpu_t =
  uid :: uid_t
  username :: string
  cpu_time :: u64

text \<open>
  \<^verbatim>\<open>proc_info_t\<close>: one entry of the per-process table. The field \<^verbatim>\<open>uid\<close> of the C
  struct is \<open>proc_uid\<close> here, since \<open>uid\<close> already names the field of \<open>user_cpu_t\<close>.
\<close>

record proc_info_t =
  pid :: pid_t
  proc_uid :: uid_t
  last_utime :: u64
  last_stime :: u64
  valid :: bool

text \<open>
  The global variables. The arrays \<^verbatim>\<open>users\<close> and \<^verbatim>\<open>proc_info\<close> are used only
  below their counters \<^verbatim>\<open>num_users\<close> and \<^verbatim>\<open>num_procs\<close>, so each array with its
  counter is a list, and the counter is its length.
\<close>

record monitor =
  users :: "user_cpu_t list"
  proc_info :: "proc_info_t list"

definition num_users :: "monitor \<Rightarrow> nat" where
  "num_users m = length (users m)"

definition num_procs :: "monitor \<Rightarrow> nat" where
  "num_procs m = length (proc_info m)"

definition initial_monitor :: monitor where
  "initial_monitor = \<lparr>users = [], proc_info = []\<rparr>"

subsection \<open>Rendering numbers\<close>

definition digit_char :: "nat \<Rightarrow> char" where
  "digit_char d = char_of (48 + d)"

text \<open>The decimal digits that \<^verbatim>\<open>%u\<close> and \<^verbatim>\<open>%d\<close> print for a natural number.\<close>

fun show_nat :: "nat \<Rightarrow> string" where
  "show_nat n = (if n < 10 then [digit_char n] else show_nat (n div 10) @ [digit_char (n mod 10)])"

declare show_nat.simps [simp del]

subsection \<open>The user table\<close>

text \<open>
  \<^verbatim>\<open>get_username\<close> asks the password database, which is the parameter \<open>pw\<close>
  (\<^verbatim>\<open>getpwuid\<close>: the name of a uid, or nothing).
\<close>

definition get_username :: "(uid_t \<Rightarrow> string option) \<Rightarrow> uid_t \<Rightarrow> string option" where
  "get_username pw u = pw u"

text \<open>The search loop of \<^verbatim>\<open>find_or_create_user\<close>: the first index whose uid matches.\<close>

fun find_user :: "user_cpu_t list \<Rightarrow> uid_t \<Rightarrow> nat option" where
  "find_user [] u = None"
| "find_user (x # xs) u = (if uid x = u then Some 0 else map_option Suc (find_user xs u))"

text \<open>
  \<^verbatim>\<open>find_or_create_user\<close> returns a pointer into the table or \<^verbatim>\<open>NULL\<close>: here the
  index of the entry, or \<open>None\<close>, with the table as it is afterwards. The name buffer
  holds 63 characters.
\<close>

definition find_or_create_user ::
  "(uid_t \<Rightarrow> string option) \<Rightarrow> uid_t \<Rightarrow> monitor \<Rightarrow> nat option \<times> monitor" where
  "find_or_create_user pw u m =
     (case find_user (users m) u of
        Some i \<Rightarrow> (Some i, m)
      | None \<Rightarrow>
          if num_users m \<ge> MAX_USERS then (None, m)
          else
            let name = (case get_username pw u of
                          Some n \<Rightarrow> take 63 n
                        | None \<Rightarrow> show_nat (unat u))
            in (Some (num_users m),
                m\<lparr>users := users m @ [\<lparr>uid = u, username = name, cpu_time = 0\<rparr>]\<rparr>))"

subsection \<open>The process table\<close>

text \<open>\<^verbatim>\<open>find_proc_info\<close>: the first valid entry with the pid.\<close>

fun find_proc :: "proc_info_t list \<Rightarrow> pid_t \<Rightarrow> nat option" where
  "find_proc [] p = None"
| "find_proc (x # xs) p =
     (if pid x = p \<and> valid x then Some 0 else map_option Suc (find_proc xs p))"

definition find_proc_info :: "monitor \<Rightarrow> pid_t \<Rightarrow> nat option" where
  "find_proc_info m p = find_proc (proc_info m) p"

definition add_proc_info ::
  "pid_t \<Rightarrow> uid_t \<Rightarrow> u64 \<Rightarrow> u64 \<Rightarrow> monitor \<Rightarrow> nat option \<times> monitor" where
  "add_proc_info p u utime stime m =
     (if num_procs m \<ge> MAX_PROCS then (None, m)
      else (Some (num_procs m),
            m\<lparr>proc_info := proc_info m @
                 [\<lparr>pid = p, proc_uid = u, last_utime = utime, last_stime = stime,
                   valid = True\<rparr>]\<rparr>))"

subsection \<open>Accounting one observation\<close>

text \<open>
  The guarded subtraction of lines 278 to 284 of \<^verbatim>\<open>scan_processes\<close>, which the
  source writes once for each of the two counters: the difference when the counter did
  not go down, and zero otherwise.
\<close>

definition delta_ticks :: "u64 \<Rightarrow> u64 \<Rightarrow> u64" where
  "delta_ticks new stored = (if new \<ge> stored then new - stored else 0)"

text \<open>
  Lines 271 to 293 of \<^verbatim>\<open>scan_processes\<close>: what the loop does with a process whose
  uid and counters were read. The uid is the one read in this sample.
\<close>

definition scan_account ::
  "(uid_t \<Rightarrow> string option) \<Rightarrow> pid_t \<Rightarrow> uid_t \<Rightarrow> u64 \<Rightarrow> u64 \<Rightarrow> monitor \<Rightarrow> monitor" where
  "scan_account pw p u utime stime m =
     (case find_proc_info m p of
        None \<Rightarrow> snd (find_or_create_user pw u (snd (add_proc_info p u utime stime m)))
      | Some i \<Rightarrow>
          let pi = proc_info m ! i;
              delta_utime = delta_ticks utime (last_utime pi);
              delta_stime = delta_ticks stime (last_stime pi);
              (user, m1) = find_or_create_user pw u m;
              m2 = (case user of
                      None \<Rightarrow> m1
                    | Some j \<Rightarrow>
                        m1\<lparr>users := (users m1)
                             [j := (users m1 ! j)
                                \<lparr>cpu_time := cpu_time (users m1 ! j) + (delta_utime + delta_stime)\<rparr>]\<rparr>)
          in m2\<lparr>proc_info := (proc_info m2)
                 [i := (proc_info m2 ! i)\<lparr>last_utime := utime, last_stime := stime\<rparr>]\<rparr>)"

text \<open>Lines 384 and 385 of \<^verbatim>\<open>initialize\<close>: the baseline never looks the pid up.\<close>

definition initialize_account ::
  "(uid_t \<Rightarrow> string option) \<Rightarrow> pid_t \<Rightarrow> uid_t \<Rightarrow> u64 \<Rightarrow> u64 \<Rightarrow> monitor \<Rightarrow> monitor" where
  "initialize_account pw p u utime stime m =
     snd (find_or_create_user pw u (snd (add_proc_info p u utime stime m)))"

subsection \<open>The report\<close>

text \<open>
  \<^verbatim>\<open>ticks_to_ms\<close>: \<^verbatim>\<open>clk_tck\<close> is a \<^verbatim>\<open>long\<close>, converted to
  \<^verbatim>\<open>unsigned long long\<close> for the division; the product wraps around at 64 bits.
\<close>

definition ticks_to_ms :: "64 word \<Rightarrow> u64 \<Rightarrow> u64" where
  "ticks_to_ms clk_tck ticks = (ticks * 1000) div clk_tck"

text \<open>Lines 409 to 412 of \<^verbatim>\<open>main\<close>: the clock rate from \<^verbatim>\<open>sysconf\<close>, or 100.\<close>

definition get_clk_tck :: "64 word \<Rightarrow> 64 word" where
  "get_clk_tck sysconf_result = (if sint sysconf_result \<le> 0 then 100 else sysconf_result)"


subsection \<open>Characters and numbers of the C library\<close>

text \<open>
  The program's input is text: the name of a directory entry, the contents of the files
  \<^verbatim>\<open>/proc/<pid>/status\<close> and \<^verbatim>\<open>/proc/<pid>/stat\<close>, and the command line. A file
  is the string of its characters, and a stream is the string still to be read. The
  functions of the C library that read it are modelled as the GNU C library behaves in
  the C locale.
\<close>

definition isdigit :: "char \<Rightarrow> bool" where
  "isdigit c \<longleftrightarrow> 48 \<le> (of_char c :: nat) \<and> (of_char c :: nat) \<le> 57"

definition isspace :: "char \<Rightarrow> bool" where
  "isspace c \<longleftrightarrow> (of_char c :: nat) = 32 \<or> (9 \<le> (of_char c :: nat) \<and> (of_char c :: nat) \<le> 13)"

definition digit_val :: "char \<Rightarrow> nat" where
  "digit_val c = of_char c - 48"

definition dec_val :: "string \<Rightarrow> nat" where
  "dec_val ds = foldl (\<lambda>a c. a * 10 + digit_val c) 0 ds"

text \<open>White space in a \<^verbatim>\<open>scanf\<close> format, and before a number: skipped.\<close>

definition skip_ws :: "string \<Rightarrow> string" where
  "skip_ws s = dropWhile isspace s"

text \<open>
  The text of a decimal number, as \<^verbatim>\<open>%d\<close>, \<^verbatim>\<open>%u\<close>, \<^verbatim>\<open>%lu\<close> and \<^verbatim>\<open>strtol\<close>
  accept it: white space, an optional sign, and at least one digit. The result is the
  sign, the magnitude and the rest of the stream, or \<open>None\<close> when no digit is there.
\<close>

definition scan_number :: "string \<Rightarrow> (bool \<times> nat \<times> string) option" where
  "scan_number s =
     (let s1 = skip_ws s;
          (neg, s2) = (case s1 of
                         c # r \<Rightarrow> if c = CHR ''-'' then (True, r)
                                  else if c = CHR ''+'' then (False, r) else (False, s1)
                       | [] \<Rightarrow> (False, s1));
          ds = takeWhile isdigit s2
      in if ds = [] then None else Some (neg, dec_val ds, dropWhile isdigit s2))"

text \<open>
  The value \<^verbatim>\<open>%lu\<close> stores (that of \<^verbatim>\<open>strtoul\<close>: \<^verbatim>\<open>ULONG_MAX\<close> when the
  magnitude does not fit, and a negated number wraps around), and the value \<^verbatim>\<open>%u\<close>
  stores, which is its low 32 bits.
\<close>

definition conv_lu :: "bool \<Rightarrow> nat \<Rightarrow> 64 word" where
  "conv_lu neg v = (if v \<ge> 2 ^ 64 then - 1 else if neg then - word_of_nat v else word_of_nat v)"

definition conv_u :: "bool \<Rightarrow> nat \<Rightarrow> 32 word" where
  "conv_u neg v = ucast (conv_lu neg v)"

text \<open>
  \<^verbatim>\<open>atoi\<close> is \<^verbatim>\<open>strtol\<close> in base 10, cast to \<^verbatim>\<open>int\<close>: zero when the text
  does not start with a number, the number's value when it fits, and the low 32 bits of
  the value clamped to the range of \<^verbatim>\<open>long\<close> when it does not.
\<close>

definition strtol :: "string \<Rightarrow> int" where
  "strtol s =
     (case scan_number s of
        None \<Rightarrow> 0
      | Some (neg, v, _) \<Rightarrow>
          if neg then max (- (2 ^ 63)) (- int v) else min (2 ^ 63 - 1) (int v))"

definition atoi :: "string \<Rightarrow> 32 word" where
  "atoi s = word_of_int (strtol s)"


subsection \<open>Directory entries\<close>

text \<open>\<^verbatim>\<open>is_pid_dir\<close>: every character of the name is a digit.\<close>

fun is_pid_dir :: "string \<Rightarrow> bool" where
  "is_pid_dir [] = True"
| "is_pid_dir (c # cs) = (if \<not> isdigit c then False else is_pid_dir cs)"

subsection \<open>The owner of a process\<close>

text \<open>
  \<^verbatim>\<open>fgets(line, n, fp)\<close> reads at most \<open>n - 1\<close> characters and stops after a newline;
  it returns nothing at the end of the file. \<open>fgets_chars\<close> is the line and the rest of
  the stream.
\<close>

fun fgets_chars :: "nat \<Rightarrow> string \<Rightarrow> string \<times> string" where
  "fgets_chars 0 s = ([], s)"
| "fgets_chars (Suc k) [] = ([], [])"
| "fgets_chars (Suc k) (c # cs) =
     (if c = CHR 0x0A then ([c], cs)
      else let (l, r) = fgets_chars k cs in (c # l, r))"

definition fgets :: "nat \<Rightarrow> string \<Rightarrow> (string \<times> string) option" where
  "fgets n s = (if s = [] then None else Some (fgets_chars (n - 1) s))"

lemma fgets_chars_length: "length (snd (fgets_chars k s)) \<le> length s"
  by (induction k s rule: fgets_chars.induct) (auto split: prod.splits)

lemma fgets_chars_shorter: "s \<noteq> [] \<Longrightarrow> 0 < k \<Longrightarrow> length (snd (fgets_chars k s)) < length s"
  using fgets_chars_length [of "k - 1" "tl s"]
  by (cases k; cases s) (auto split: prod.splits simp: less_Suc_eq_le)

text \<open>
  The loop of \<^verbatim>\<open>get_process_uid\<close> (lines 79 to 85): the first line that starts with
  \<^verbatim>\<open>Uid:\<close> ends the search; \<^verbatim>\<open>sscanf\<close> stores the number after the tag, and leaves
  \<open>uid\<close> as it was when no number is there.
\<close>

function uid_loop :: "string \<Rightarrow> uid_t \<Rightarrow> uid_t" where
  "uid_loop s u =
     (case fgets 256 s of
        None \<Rightarrow> u
      | Some (line, rest) \<Rightarrow>
          if take 4 line = ''Uid:'' then
            (case scan_number (drop 4 line) of
               None \<Rightarrow> u
             | Some (neg, v, _) \<Rightarrow> conv_u neg v)
          else uid_loop rest u)"
  by pat_completeness auto
termination
proof (relation "measure (\<lambda>(s, u). length s)")
  show "wf (measure (\<lambda>(s, u). length s))" by simp
next
  fix s :: string and u :: uid_t and x2 x y
  assume "fgets 256 s = Some x2" "(x, y) = x2" "take 4 x \<noteq> ''Uid:''"
  then show "((y, u), (s, u)) \<in> measure (\<lambda>(s, u). length s)"
    using fgets_chars_shorter [of s 255]
    by (auto simp: fgets_def split: if_splits)
qed

declare uid_loop.simps [simp del]

text \<open>
  \<^verbatim>\<open>get_process_uid\<close>, given what \<^verbatim>\<open>fopen\<close> finds for the status file: \<open>None\<close>
  when it cannot be opened. The result \<^verbatim>\<open>(uid_t)-1\<close> is the word \<open>- 1\<close>.
\<close>

definition get_process_uid :: "string option \<Rightarrow> uid_t" where
  "get_process_uid status =
     (case status of
        None \<Rightarrow> - 1
      | Some s \<Rightarrow> uid_loop s (- 1))"


subsection \<open>The counters of a process\<close>

text \<open>
  The loop of lines 131 to 145 of \<^verbatim>\<open>read_proc_cpu_time\<close>, from the stream, the depth
  and the name read so far (\<^verbatim>\<open>comm_idx\<close> is its length) to the name and the stream left
  after it.
\<close>

fun read_comm :: "string \<Rightarrow> int \<Rightarrow> string \<Rightarrow> string \<times> string" where
  "read_comm [] paren_depth comm = (comm, [])"
| "read_comm (c # cs) paren_depth comm =
     (let d1 = (if c = CHR ''('' then paren_depth + 1 else paren_depth)
      in if c = CHR ''('' \<and> d1 = 1 then read_comm cs d1 comm
         else
           let d2 = (if c = CHR '')'' then d1 - 1 else d1)
           in if c = CHR '')'' \<and> d2 = 0 then (comm, cs)
              else if d2 > 0 \<and> length comm < 255 then read_comm cs d2 (comm @ [c])
              else read_comm cs d2 comm)"

text \<open>
  The \<^verbatim>\<open>fscanf\<close> of lines 149 to 152: one character for the state, then twelve
  numbers, every conversion after white space. The call succeeds when all thirteen
  conversions do; only the last two values are used, both read by \<^verbatim>\<open>%lu\<close>.
\<close>

fun scan_numbers :: "nat \<Rightarrow> string \<Rightarrow> ((bool \<times> nat) list) option" where
  "scan_numbers 0 s = Some []"
| "scan_numbers (Suc n) s =
     (case scan_number s of
        None \<Rightarrow> None
      | Some (neg, v, rest) \<Rightarrow>
          (case scan_numbers n rest of
             None \<Rightarrow> None
           | Some vs \<Rightarrow> Some ((neg, v) # vs)))"

definition scan_fields :: "string \<Rightarrow> (u64 \<times> u64) option" where
  "scan_fields s =
     (case skip_ws s of
        [] \<Rightarrow> None
      | state # s1 \<Rightarrow>
          (case scan_numbers 12 s1 of
             None \<Rightarrow> None
           | Some vs \<Rightarrow>
               Some (conv_lu (fst (vs ! 10)) (snd (vs ! 10)),
                     conv_lu (fst (vs ! 11)) (snd (vs ! 11)))))"

text \<open>
  \<^verbatim>\<open>read_proc_cpu_time\<close>, given what \<^verbatim>\<open>fopen\<close> finds for the stat file: the two
  counters, or \<open>None\<close> for the result \<^verbatim>\<open>-1\<close>.
\<close>

definition read_proc_cpu_time :: "string option \<Rightarrow> (u64 \<times> u64) option" where
  "read_proc_cpu_time stat =
     (case stat of
        None \<Rightarrow> None
      | Some s \<Rightarrow>
          (case scan_number s of
             None \<Rightarrow> None
           | Some (neg, pid_read, s0) \<Rightarrow>
               let (comm, s2) = read_comm (skip_ws s0) 0 []
               in scan_fields s2))"


subsection \<open>One scan of the process directory\<close>

text \<open>
  What one step of \<^verbatim>\<open>readdir\<close> gives the loop: the name of the entry, and the
  contents that the two files of the pid have when the loop opens them (\<open>None\<close> for
  a file that cannot be opened).
\<close>

record dirent =
  d_name :: string
  status_file :: "string option"
  stat_file :: "string option"

text \<open>The body of the loop of \<^verbatim>\<open>scan_processes\<close> (lines 259 to 293).\<close>

definition scan_entry :: "(uid_t \<Rightarrow> string option) \<Rightarrow> dirent \<Rightarrow> monitor \<Rightarrow> monitor" where
  "scan_entry pw e m =
     (if \<not> is_pid_dir (d_name e) then m
      else
        let p = atoi (d_name e);
            u = get_process_uid (status_file e)
        in if u = - 1 then m
           else (case read_proc_cpu_time (stat_file e) of
                   None \<Rightarrow> m
                 | Some (utime, stime) \<Rightarrow> scan_account pw p u utime stime m))"

text \<open>
  \<^verbatim>\<open>scan_processes\<close>, given the listing of \<^verbatim>\<open>/proc\<close>: \<open>None\<close> when
  \<^verbatim>\<open>opendir\<close> fails (the diagnostic of \<^verbatim>\<open>perror\<close> is not part of the model).
\<close>

definition scan_processes ::
  "(uid_t \<Rightarrow> string option) \<Rightarrow> dirent list option \<Rightarrow> monitor \<Rightarrow> monitor" where
  "scan_processes pw proc_dir m =
     (case proc_dir of
        None \<Rightarrow> m
      | Some entries \<Rightarrow> fold (scan_entry pw) entries m)"

text \<open>The body of the loop of \<^verbatim>\<open>initialize\<close> (lines 372 to 385), and the function.\<close>

definition initialize_entry :: "(uid_t \<Rightarrow> string option) \<Rightarrow> dirent \<Rightarrow> monitor \<Rightarrow> monitor" where
  "initialize_entry pw e m =
     (if \<not> is_pid_dir (d_name e) then m
      else
        let p = atoi (d_name e);
            u = get_process_uid (status_file e)
        in if u = - 1 then m
           else (case read_proc_cpu_time (stat_file e) of
                   None \<Rightarrow> m
                 | Some (utime, stime) \<Rightarrow> initialize_account pw p u utime stime m))"

definition initialize ::
  "(uid_t \<Rightarrow> string option) \<Rightarrow> dirent list option \<Rightarrow> monitor \<Rightarrow> monitor" where
  "initialize pw proc_dir m =
     (case proc_dir of
        None \<Rightarrow> m
      | Some entries \<Rightarrow> fold (initialize_entry pw) entries m)"

subsection \<open>The summary\<close>

definition compare_users :: "user_cpu_t \<Rightarrow> user_cpu_t \<Rightarrow> int" where
  "compare_users ua ub =
     (if cpu_time ub > cpu_time ua then 1
      else if cpu_time ub < cpu_time ua then - 1
      else 0)"

text \<open>
  The lines of the report: the header, the separator, a row with its rank, user name
  and milliseconds, and the line printed when there is no row. \<open>render\<close> below is
  their text.
\<close>

datatype out_line = Header | Separator | Row int string u64 | No_Usage

text \<open>The loop of \<^verbatim>\<open>print_summary\<close> (lines 338 to 346) from a value of \<^verbatim>\<open>rank\<close>.\<close>

fun print_rows :: "64 word \<Rightarrow> user_cpu_t list \<Rightarrow> int \<Rightarrow> out_line list \<times> int" where
  "print_rows clk [] rank = ([], rank)"
| "print_rows clk (x # xs) rank =
     (if cpu_time x > 0 then
        let (ls, r) = print_rows clk xs (rank + 1)
        in (Row (rank + 1) (username x) (ticks_to_ms clk (cpu_time x)) # ls, r)
      else print_rows clk xs rank)"

text \<open>
  \<^verbatim>\<open>print_summary\<close>. The C library's \<^verbatim>\<open>qsort\<close> is a parameter: the C standard
  fixes only that its result is a rearrangement of the array in the order of the
  comparison, and leaves the order of equal elements open.
\<close>

definition print_summary ::
  "((user_cpu_t \<Rightarrow> user_cpu_t \<Rightarrow> int) \<Rightarrow> user_cpu_t list \<Rightarrow> user_cpu_t list) \<Rightarrow>
   64 word \<Rightarrow> monitor \<Rightarrow> out_line list \<times> monitor" where
  "print_summary qsort clk m =
     (let sorted = qsort compare_users (users m);
          (ls, rank) = print_rows clk sorted 0
      in ([Header, Separator] @ ls @ (if rank = 0 then [No_Usage] else []),
          m\<lparr>users := sorted\<rparr>))"

text \<open>One sorting function that \<^verbatim>\<open>qsort\<close> may be: insertion sort.\<close>

fun insert_by :: "('a \<Rightarrow> 'a \<Rightarrow> int) \<Rightarrow> 'a \<Rightarrow> 'a list \<Rightarrow> 'a list" where
  "insert_by cmp x [] = [x]"
| "insert_by cmp x (y # ys) = (if cmp x y \<le> 0 then x # y # ys else y # insert_by cmp x ys)"

definition insertion_qsort :: "('a \<Rightarrow> 'a \<Rightarrow> int) \<Rightarrow> 'a list \<Rightarrow> 'a list" where
  "insertion_qsort cmp xs = foldr (insert_by cmp) xs []"

definition pad_right :: "nat \<Rightarrow> string \<Rightarrow> string" where
  "pad_right n s = s @ replicate (n - length s) CHR '' ''"

fun render :: "out_line \<Rightarrow> string" where
  "render Header = ''Rank User           CPU Time (milliseconds)'' @ [CHR 0x0A]"
| "render Separator = ''----------------------------------------'' @ [CHR 0x0A]"
| "render (Row rank name ms) =
     pad_right 4 (show_nat (nat rank)) @ '' '' @ pad_right 14 name @ '' '' @
     show_nat (unat ms) @ [CHR 0x0A]"
| "render No_Usage = ''(No CPU usage recorded)'' @ [CHR 0x0A]"

subsection \<open>The program\<close>

text \<open>
  What the program finds around it: the password database, the result of
  \<^verbatim>\<open>sysconf(_SC_CLK_TCK)\<close>, the C library's \<^verbatim>\<open>qsort\<close>, the listing of
  \<^verbatim>\<open>/proc\<close> at the baseline and at each iteration of the monitoring loop.
\<close>

record environment =
  getpwuid :: "uid_t \<Rightarrow> string option"
  sysconf_clk_tck :: "64 word"
  qsort :: "(user_cpu_t \<Rightarrow> user_cpu_t \<Rightarrow> int) \<Rightarrow> user_cpu_t list \<Rightarrow> user_cpu_t list"
  proc_at_start :: "dirent list option"
  proc_at_tick :: "nat \<Rightarrow> dirent list option"

text \<open>
  What a run leaves: the exit status, the text on the error stream, the lines of the
  report, the number of calls of \<^verbatim>\<open>scan_processes\<close> the loop made, and the tables.
\<close>

record outcome =
  exit_status :: int
  stderr_text :: string
  stdout_lines :: "out_line list"
  scans :: nat
  tables :: monitor

text \<open>The loop of lines 418 to 421 of \<^verbatim>\<open>main\<close>.\<close>

function monitor_loop ::
  "environment \<Rightarrow> nat \<Rightarrow> nat \<Rightarrow> monitor \<Rightarrow> nat \<times> monitor" where
  "monitor_loop env elapsed duration m =
     (if elapsed < duration
      then monitor_loop env (elapsed + 1) duration
             (scan_processes (getpwuid env) (proc_at_tick env elapsed) m)
      else (elapsed, m))"
  by pat_completeness auto
termination
  by (relation "measure (\<lambda>(env, elapsed, duration, m). duration - elapsed)") auto

declare monitor_loop.simps [simp del]

text \<open>\<^verbatim>\<open>main\<close>: \<open>argv\<close> is the whole argument vector, and \<^verbatim>\<open>argc\<close> its length.\<close>

definition main :: "environment \<Rightarrow> string list \<Rightarrow> outcome" where
  "main env argv =
     (if length argv \<noteq> 2 then
        \<lparr>exit_status = 1,
         stderr_text = ''Usage: '' @ (case argv of [] \<Rightarrow> ''(null)'' | a # _ \<Rightarrow> a) @
                       '' <duration_seconds>'' @ [CHR 0x0A],
         stdout_lines = [], scans = 0, tables = initial_monitor\<rparr>
      else
        let duration = atoi (argv ! 1)
        in if sint duration \<le> 0 then
             \<lparr>exit_status = 1,
              stderr_text = ''Error: duration must be a positive integer'' @ [CHR 0x0A],
              stdout_lines = [], scans = 0, tables = initial_monitor\<rparr>
           else
             let clk_tck = get_clk_tck (sysconf_clk_tck env);
                 m0 = initialize (getpwuid env) (proc_at_start env) initial_monitor;
                 (n, m1) = monitor_loop env 0 (nat (sint duration)) m0;
                 (ls, m2) = print_summary (qsort env) clk_tck m1
             in \<lparr>exit_status = 0, stderr_text = [], stdout_lines = ls, scans = n,
                 tables = m2\<rparr>)"


subsection \<open>Notions used in the statements\<close>

text \<open>
  The entry that \<open>find_or_create_user\<close> appends for a uid, and the entry that
  \<open>add_proc_info\<close> appends for an observation.
\<close>

definition new_user :: "(uid_t \<Rightarrow> string option) \<Rightarrow> uid_t \<Rightarrow> user_cpu_t" where
  "new_user pw u =
     \<lparr>uid = u, username = (case pw u of Some n \<Rightarrow> take 63 n | None \<Rightarrow> show_nat (unat u)),
      cpu_time = 0\<rparr>"

definition new_proc :: "pid_t \<Rightarrow> uid_t \<Rightarrow> u64 \<Rightarrow> u64 \<Rightarrow> proc_info_t" where
  "new_proc p u utime stime =
     \<lparr>pid = p, proc_uid = u, last_utime = utime, last_stime = stime, valid = True\<rparr>"

text \<open>
  The text of a field of the stat file: a string of digits is an unsigned number, and a
  number may have a minus sign (the kernel prints \<^verbatim>\<open>-1\<close> for a process with no
  terminal). \<open>number_of\<close> is its sign and magnitude, and \<open>lu_of\<close> the value that
  \<^verbatim>\<open>%lu\<close> stores for it.
\<close>

definition is_digits :: "string \<Rightarrow> bool" where
  "is_digits s \<longleftrightarrow> s \<noteq> [] \<and> list_all isdigit s"

definition is_number :: "string \<Rightarrow> bool" where
  "is_number f =
     (case f of
        [] \<Rightarrow> False
      | c # r \<Rightarrow> if c = CHR ''-'' then is_digits r else is_digits f)"

definition number_of :: "string \<Rightarrow> bool \<times> nat" where
  "number_of f =
     (case f of
        [] \<Rightarrow> (False, 0)
      | c # r \<Rightarrow> if c = CHR ''-'' then (True, dec_val r) else (False, dec_val f))"

definition lu_of :: "string \<Rightarrow> u64" where
  "lu_of f = conv_lu (fst (number_of f)) (snd (number_of f))"

text \<open>
  The words of the specification about the command name. \<open>closing d s\<close> is the position
  in \<open>s\<close> of the closing parenthesis at which the nesting depth, \<open>d\<close> before \<open>s\<close>,
  returns to zero, if there is one. \<open>well_nested 0 name\<close> says that the parentheses in a
  name match each other.
\<close>

fun closing :: "nat \<Rightarrow> string \<Rightarrow> nat option" where
  "closing d [] = None"
| "closing d (c # cs) =
     (if c = CHR ''('' then map_option Suc (closing (d + 1) cs)
      else if c = CHR '')'' then (if d = 1 then Some 0 else map_option Suc (closing (d - 1) cs))
      else map_option Suc (closing d cs))"

fun well_nested :: "nat \<Rightarrow> string \<Rightarrow> bool" where
  "well_nested d [] = (d = 0)"
| "well_nested d (c # cs) =
     (if c = CHR ''('' then well_nested (d + 1) cs
      else if c = CHR '')'' then d > 0 \<and> well_nested (d - 1) cs
      else well_nested d cs)"

text \<open>
  The words of the specification about fields: \<open>ws_fields\<close> cuts a text at white space
  into its fields.
\<close>

fun split_ws :: "string \<Rightarrow> string \<Rightarrow> string list" where
  "split_ws cur [] = (if cur = [] then [] else [cur])"
| "split_ws cur (c # cs) =
     (if isspace c then (if cur = [] then split_ws [] cs else cur # split_ws [] cs)
      else split_ws (cur @ [c]) cs)"

definition ws_fields :: "string \<Rightarrow> string list" where
  "ws_fields s = split_ws [] s"

text \<open>
  A stat record as the kernel writes it: the pid, the command name in parentheses, the
  state character and the numeric fields \<open>fs\<close>, one space between fields and a newline
  at the end. \<open>stat_tail\<close> is the part after the command name.
\<close>

definition stat_tail :: "char \<Rightarrow> string list \<Rightarrow> string" where
  "stat_tail state fs = CHR '' '' # state # concat (map ((#) CHR '' '') fs) @ [CHR 0x0A]"

definition stat_record :: "string \<Rightarrow> string \<Rightarrow> char \<Rightarrow> string list \<Rightarrow> string" where
  "stat_record pidtxt name state fs = pidtxt @ '' ('' @ name @ '')'' @ stat_tail state fs"

text \<open>
  What the loops of \<open>scan_processes\<close> and \<open>initialize\<close> read from a directory entry,
  when none of their three checks skips it: the pid, the uid and the two counters.
  \<open>reported_ticks\<close> is the sum of the two counters of an entry, and \<open>tick_total\<close> the
  sum over a listing.
\<close>

definition observation :: "dirent \<Rightarrow> (pid_t \<times> uid_t \<times> u64 \<times> u64) option" where
  "observation e =
     (if \<not> is_pid_dir (d_name e) \<or> get_process_uid (status_file e) = - 1 then None
      else map_option (\<lambda>(utime, stime).
             (atoi (d_name e), get_process_uid (status_file e), utime, stime))
           (read_proc_cpu_time (stat_file e)))"

definition reported_ticks :: "dirent \<Rightarrow> nat" where
  "reported_ticks e =
     (case observation e of None \<Rightarrow> 0 | Some (p, u, utime, stime) \<Rightarrow> unat utime + unat stime)"

definition tick_total :: "dirent list option \<Rightarrow> nat" where
  "tick_total proc_dir =
     (case proc_dir of None \<Rightarrow> 0 | Some entries \<Rightarrow> sum_list (map reported_ticks entries))"

text \<open>
  The directory entry of a process as the kernel presents it: the pid as its name, a
  status file with the \<^verbatim>\<open>Uid:\<close> line, and a stat record with the two counters in the
  14th and 15th field.
\<close>

definition proc_entry :: "string \<Rightarrow> string \<Rightarrow> string \<Rightarrow> string \<Rightarrow> dirent" where
  "proc_entry pidtxt uidtxt utime stime =
     \<lparr>d_name = pidtxt,
      status_file = Some (''Uid:'' @ [CHR 0x09] @ uidtxt @ [CHR 0x0A]),
      stat_file = Some (stat_record pidtxt ''cmd'' CHR ''R''
        [''1'', ''1'', ''1'', ''0'', ''-1'', ''0'', ''0'', ''0'', ''0'', ''0'', utime, stime])\<rparr>"



text \<open>
  The run of the specification's example: process 10 of user 7 is in the baseline with
  the counters (5, 5); the first tick sees it with (8, 9), and the second tick sees it
  unchanged, with a new process 20 of user 7 at (0, 0).
\<close>

definition example_env :: environment where
  "example_env =
     \<lparr>getpwuid = Map.empty, sysconf_clk_tck = 100, qsort = insertion_qsort,
      proc_at_start = Some [proc_entry ''10'' ''7'' ''5'' ''5''],
      proc_at_tick = (\<lambda>k. if k = 0 then Some [proc_entry ''10'' ''7'' ''8'' ''9'']
                            else Some [proc_entry ''10'' ''7'' ''8'' ''9'',
                                       proc_entry ''20'' ''7'' ''0'' ''0''])\<rparr>"

section \<open>Properties\<close>

subsection \<open>Helper lemmas on the tables\<close>

lemma uint_delta_ticks:
  "uint (delta_ticks new stored) = max 0 (uint new - uint stored)"
  by (simp add: delta_ticks_def word_le_def uint_sub_if' word_less_def)

lemma delta_ticks_decreased: "new < stored \<Longrightarrow> delta_ticks new stored = 0"
  by (auto simp: delta_ticks_def)


lemma find_user_bound: "find_user xs u = Some i \<Longrightarrow> i < length xs \<and> uid (xs ! i) = u"
  by (induction xs arbitrary: i) (auto split: if_splits)

lemma find_user_None: "find_user xs u = None \<longleftrightarrow> u \<notin> uid ` set xs"
  by (induction xs) auto

lemma focu_proc_info: "proc_info (snd (find_or_create_user pw u m)) = proc_info m"
  by (simp add: find_or_create_user_def Let_def split: option.splits)

lemma scan_account_tracked:
  assumes "find_proc_info m p = Some i" and "find_or_create_user pw u m = (user, m1)"
  shows "scan_account pw p u utime stime m =
     \<lparr>users = (case user of None \<Rightarrow> users m1
                | Some j \<Rightarrow> (users m1)[j := (users m1 ! j)\<lparr>cpu_time := cpu_time (users m1 ! j)
                     + (delta_ticks utime (last_utime (proc_info m ! i))
                        + delta_ticks stime (last_stime (proc_info m ! i)))\<rparr>]),
      proc_info = (proc_info m)[i := (proc_info m ! i)\<lparr>last_utime := utime, last_stime := stime\<rparr>]\<rparr>"
proof -
  have "proc_info m1 = proc_info m"
    using focu_proc_info [of pw u m] assms(2) by simp
  then show ?thesis
    using assms by (cases user) (simp_all add: scan_account_def Let_def)
qed

subsection \<open>Deltas of a tracked process\<close>

text \<open>
  Claim C1. When the pid is already in the process table (at index \<open>i\<close>), an observation
  with the counters \<open>utime\<close> and \<open>stime\<close> computes, for each counter on its own, the
  delta \<open>max 0 (new - stored)\<close> as a number, which is zero when the counter went down;
  the sum of the two deltas is what the user entry found for the observation receives,
  and the stored counters become the new values.
\<close>

theorem tracked_observation_delta:
  assumes "find_proc_info m p = Some i"
  shows "(let pi = proc_info m ! i;
              du = delta_ticks utime (last_utime pi);
              ds = delta_ticks stime (last_stime pi);
              m' = scan_account pw p u utime stime m
          in uint du = max 0 (uint utime - uint (last_utime pi))
           \<and> uint ds = max 0 (uint stime - uint (last_stime pi))
           \<and> (utime < last_utime pi \<longrightarrow> du = 0)
           \<and> (stime < last_stime pi \<longrightarrow> ds = 0)
           \<and> users m' =
               (case find_or_create_user pw u m of
                  (None, m1) \<Rightarrow> users m1
                | (Some j, m1) \<Rightarrow>
                    (users m1)[j := (users m1 ! j)\<lparr>cpu_time := cpu_time (users m1 ! j) + (du + ds)\<rparr>])
           \<and> proc_info m' = (proc_info m)[i := pi\<lparr>last_utime := utime, last_stime := stime\<rparr>])"
proof -
  obtain user m1 where f: "find_or_create_user pw u m = (user, m1)"
    by (cases "find_or_create_user pw u m")
  show ?thesis
    unfolding Let_def scan_account_tracked [OF assms f] f
    by (cases user) (simp_all add: uint_delta_ticks delta_ticks_decreased)
qed

theorem tracked_observation_delta_witness:
  "(let m = \<lparr>users = [\<lparr>uid = 7, username = ''u7'', cpu_time = 0\<rparr>],
              proc_info = [\<lparr>pid = 10, proc_uid = 7, last_utime = 5, last_stime = 9,
                            valid = True\<rparr>]\<rparr>;
        m' = scan_account Map.empty 10 7 8 3 m
    in find_proc_info m 10 = Some 0
     \<and> delta_ticks 8 5 = 3 \<and> delta_ticks 3 9 = 0
     \<and> users m' = [\<lparr>uid = 7, username = ''u7'', cpu_time = 3\<rparr>]
     \<and> proc_info m' = [\<lparr>pid = 10, proc_uid = 7, last_utime = 8, last_stime = 3,
                          valid = True\<rparr>])"
proof -
  define m where "m = \<lparr>users = [\<lparr>uid = 7, username = ''u7'', cpu_time = 0\<rparr>],
              proc_info = [\<lparr>pid = 10, proc_uid = 7, last_utime = 5, last_stime = 9,
                            valid = True\<rparr>]\<rparr>"
  have h: "find_proc_info m 10 = Some 0"
    by (simp add: m_def find_proc_info_def)
  have f: "find_or_create_user Map.empty 7 m = (Some 0, m)"
    by (simp add: m_def find_or_create_user_def)
  have d: "delta_ticks 8 5 = 3" "delta_ticks 3 9 = 0"
    by (simp_all add: delta_ticks_def)
  from tracked_observation_delta [OF h, of 8 3 Map.empty 7] show ?thesis
    unfolding Let_def m_def [symmetric] f
    using h d by (simp add: m_def)
qed

subsection \<open>More on the tables\<close>

lemma digit_char_numeral [simp]:
  "digit_char 0 = CHR ''0''" "digit_char 1 = CHR ''1''" "digit_char 2 = CHR ''2''"
  "digit_char 3 = CHR ''3''" "digit_char 4 = CHR ''4''" "digit_char 5 = CHR ''5''"
  "digit_char 6 = CHR ''6''" "digit_char 7 = CHR ''7''" "digit_char 8 = CHR ''8''"
  "digit_char 9 = CHR ''9''"
  unfolding digit_char_def by code_simp+

lemma focu_cases:
  "find_or_create_user pw u m =
     (case find_user (users m) u of
        Some i \<Rightarrow> (Some i, m)
      | None \<Rightarrow> if num_users m < MAX_USERS
                then (Some (num_users m), m\<lparr>users := users m @ [new_user pw u]\<rparr>)
                else (None, m))"
  by (auto simp: find_or_create_user_def new_user_def get_username_def Let_def split: option.splits)

lemma focu_found:
  assumes "find_or_create_user pw u m = (Some j, m1)"
  shows "j < length (users m1) \<and> uid (users m1 ! j) = u \<and> proc_info m1 = proc_info m
       \<and> take (length (users m)) (users m1) = users m \<and> length (users m) \<le> length (users m1)"
  using assms find_user_bound [of "users m" u]
  by (auto simp: focu_cases num_users_def new_user_def nth_append split: option.splits if_splits)

lemma focu_none:
  assumes "find_or_create_user pw u m = (None, m1)"
  shows "m1 = m"
  using assms by (auto simp: focu_cases split: option.splits if_splits)

lemma initialize_account_eq:
  "initialize_account pw p u utime stime m =
     \<lparr>users = (if find_user (users m) u = None \<and> num_users m < MAX_USERS
                then users m @ [new_user pw u] else users m),
      proc_info = (if num_procs m < MAX_PROCS
                   then proc_info m @ [new_proc p u utime stime] else proc_info m)\<rparr>"
  by (auto simp: initialize_account_def add_proc_info_def focu_cases new_proc_def num_users_def
      split: option.splits)

lemma scan_account_untracked:
  "find_proc_info m p = None \<Longrightarrow>
   scan_account pw p u utime stime m = initialize_account pw p u utime stime m"
  by (simp add: scan_account_def initialize_account_def)

lemma find_proc_absent: "p \<notin> pid ` set xs \<Longrightarrow> find_proc xs p = None"
  by (induction xs) auto

subsection \<open>Which user receives a delta\<close>




subsection \<open>The first observation of a process\<close>

text \<open>
  Claim C5, as the code has it. The baseline treats every process as new, and a sampling
  tick treats a process with no entry the same way. Such an observation changes no user
  entry that exists: the user table stays as it is, or gains one entry with zero ticks
  when the uid has none and the table has room (fewer than \<open>MAX_USERS\<close> entries). The
  process table gains an entry with the observed counters when it has room (fewer than
  \<open>MAX_PROCS\<close> entries), and stays as it is otherwise.
\<close>

theorem first_observation_no_attribution:
  "(let m' = initialize_account pw p u utime stime m
    in (find_proc_info m p = None \<longrightarrow> scan_account pw p u utime stime m = m')
     \<and> take (num_users m) (users m') = users m
     \<and> users m' = (if find_user (users m) u = None \<and> num_users m < MAX_USERS
                    then users m @ [new_user pw u] else users m)
     \<and> cpu_time (new_user pw u) = 0
     \<and> proc_info m' = (if num_procs m < MAX_PROCS
                        then proc_info m @ [new_proc p u utime stime] else proc_info m))"
proof -
  have "cpu_time (new_user pw u) = 0"
    by (simp add: new_user_def)
  then show ?thesis
    unfolding Let_def
    by (simp add: scan_account_untracked initialize_account_eq num_users_def)
qed

theorem first_observation_no_attribution_witness:
  "(let m = \<lparr>users = [\<lparr>uid = 7, username = ''u7'', cpu_time = 3\<rparr>],
              proc_info = [new_proc 10 7 5 5]\<rparr>;
        m' = scan_account Map.empty 20 7 0 0 m
    in find_proc_info m 20 = None
     \<and> users m' = users m
     \<and> proc_info m' = [new_proc 10 7 5 5, new_proc 20 7 0 0])"
proof -
  define m where "m = \<lparr>users = [\<lparr>uid = 7, username = ''u7'', cpu_time = 3\<rparr>],
              proc_info = [new_proc 10 7 5 5]\<rparr>"
  have h: "find_proc_info m 20 = None"
    by (simp add: m_def find_proc_info_def new_proc_def)
  from first_observation_no_attribution [of Map.empty 20 7 0 0 m] show ?thesis
    unfolding Let_def m_def [symmetric]
    using h by (simp add: m_def num_procs_def MAX_PROCS_def)
qed

lemma find_user_absent: "u \<notin> uid ` set xs \<Longrightarrow> find_user xs u = None"
  by (simp add: find_user_None)

lemma word32_of_nat_neq:
  "k < n \<Longrightarrow> n < 2 ^ 32 \<Longrightarrow> (word_of_nat k :: 32 word) \<noteq> word_of_nat n"
proof
  assume "k < n" "n < 2 ^ 32" "(word_of_nat k :: 32 word) = word_of_nat n"
  then have "unat (word_of_nat k :: 32 word) = unat (word_of_nat n :: 32 word)" by simp
  with \<open>k < n\<close> \<open>n < 2 ^ 32\<close> show False by (simp add: unat_of_nat)
qed

text \<open>
  The claim as it was stated fails when the tables are full: with 65536 process entries,
  for the pids 0 to 65535, and 1024 user entries, for the uids 0 to 1023, the first
  observation of pid 65536, of uid 5000 and with counters (5, 5), leaves both tables as
  they are. The process has no entry afterwards, and its user has none.
\<close>

theorem full_table_not_seeded:
  "(let m = \<lparr>users = map (\<lambda>k. new_user Map.empty (word_of_nat k)) [0..<1024],
              proc_info = map (\<lambda>k. new_proc (word_of_nat k) 7 0 0) [0..<65536]\<rparr>;
        m' = scan_account Map.empty 65536 5000 5 5 m
    in find_proc_info m 65536 = None
     \<and> find_user (users m) 5000 = None
     \<and> m' = m
     \<and> find_proc_info m' 65536 = None
     \<and> find_user (users m') 5000 = None)"
proof -
  define m where "m = \<lparr>users = map (\<lambda>k. new_user Map.empty (word_of_nat k)) [0..<1024],
              proc_info = map (\<lambda>k. new_proc (word_of_nat k) 7 0 0) [0..<65536]\<rparr>"
  have "(65536 :: 32 word) \<notin> pid ` set (proc_info m)"
    using word32_of_nat_neq [of _ 65536] by (auto simp: m_def new_proc_def)
  then have h: "find_proc_info m 65536 = None"
    by (simp add: find_proc_info_def find_proc_absent)
  have "(5000 :: 32 word) \<notin> uid ` set (users m)"
    using word32_of_nat_neq [of _ 5000] by (auto simp: m_def new_user_def)
  then have u: "find_user (users m) 5000 = None"
    by (rule find_user_absent)
  have n: "num_procs m = 65536" "num_users m = 1024"
    by (simp_all add: m_def num_procs_def num_users_def)
  have "scan_account Map.empty 65536 5000 5 5 m = initialize_account Map.empty 65536 5000 5 5 m"
    using h by (rule scan_account_untracked)
  then have "scan_account Map.empty 65536 5000 5 5 m = m"
    by (simp add: initialize_account_eq n MAX_PROCS_def MAX_USERS_def)
  with h u show ?thesis
    unfolding Let_def m_def [symmetric] by simp
qed

subsection \<open>Ticks to milliseconds\<close>

lemma unat_ticks_to_ms:
  "unat (ticks_to_ms clk t) = ((unat t * 1000) mod 2 ^ 64) div unat clk"
  by (simp add: ticks_to_ms_def unat_div unat_word_ariths)

text \<open>
  Claim C9, as the code has it. The clock rate is the one \<^verbatim>\<open>sysconf\<close> returns, or 100
  when that is not positive, so it is positive. The milliseconds are the quotient of
  \<open>ticks * 1000\<close> reduced modulo \<open>2 ^ 64\<close> by the clock rate, rounded down: this is
  \<open>floor (ticks * 1000 / clock rate)\<close> whenever \<open>ticks * 1000\<close> is below \<open>2 ^ 64\<close>. At
  the rate 100, 250 ticks are 2500 milliseconds.
\<close>

theorem ticks_to_ms_value:
  "unat (ticks_to_ms (get_clk_tck r) t) = ((unat t * 1000) mod 2 ^ 64) div unat (get_clk_tck r)
   \<and> (unat t * 1000 < 2 ^ 64 \<longrightarrow>
        unat (ticks_to_ms (get_clk_tck r) t) = (unat t * 1000) div unat (get_clk_tck r))
   \<and> get_clk_tck r = (if sint r \<le> 0 then 100 else r)
   \<and> 0 < sint (get_clk_tck r)
   \<and> ticks_to_ms 100 250 = 2500"
  by (simp add: unat_ticks_to_ms get_clk_tck_def) (simp add: ticks_to_ms_def)

theorem ticks_to_ms_value_witness:
  "unat (250 :: 64 word) * 1000 < 2 ^ 64 \<and> unat (ticks_to_ms (get_clk_tck 0) 250) = 2500
   \<and> get_clk_tck (- 1) = 100 \<and> get_clk_tck 250 = 250"
  using ticks_to_ms_value [of 0 250] ticks_to_ms_value [of "- 1" 0] ticks_to_ms_value [of 250 0]
  by simp

text \<open>
  The claim as it was stated fails where the product wraps around: at the rate 100,
  18446744073709552 ticks are reported as 3 milliseconds, and the exact quotient is
  184467440737095520.
\<close>

theorem ticks_to_ms_wraps:
  "unat (ticks_to_ms 100 18446744073709552) = 3
   \<and> (unat (18446744073709552 :: 64 word) * 1000) div unat (100 :: 64 word) = 184467440737095520"
  by (simp add: ticks_to_ms_def)

subsection \<open>The ranked report\<close>

lemma compare_users_le: "compare_users a b \<le> 0 \<longleftrightarrow> cpu_time b \<le> cpu_time a"
  by (auto simp: compare_users_def)

lemma print_rows_eq:
  "print_rows clk xs r =
     (map (\<lambda>k. Row (r + 1 + int k) (username (filter (\<lambda>x. 0 < cpu_time x) xs ! k))
                  (ticks_to_ms clk (cpu_time (filter (\<lambda>x. 0 < cpu_time x) xs ! k))))
          [0..<length (filter (\<lambda>x. 0 < cpu_time x) xs)],
      r + int (length (filter (\<lambda>x. 0 < cpu_time x) xs)))"
proof (induction xs arbitrary: r)
  case Nil
  show ?case by simp
next
  case (Cons x xs)
  show ?case
  proof (cases "0 < cpu_time x")
    case True
    have shift: "[0..<Suc n] = 0 # map Suc [0..<n]" for n
      by (simp add: upt_conv_Cons map_Suc_upt del: upt_Suc)
    show ?thesis
      using True by (simp add: Cons.IH shift comp_def add.assoc del: upt_Suc)
  next
    case False
    then show ?thesis by (simp add: Cons.IH)
  qed
qed

lemma insert_by_mset: "mset (insert_by cmp x ys) = add_mset x (mset ys)"
  by (induction ys) auto

lemma insertion_qsort_mset: "mset (insertion_qsort cmp xs) = mset xs"
  by (induction xs) (auto simp: insertion_qsort_def insert_by_mset)

lemma insert_by_set: "set (insert_by cmp x ys) = insert x (set ys)"
  by (induction ys) auto

lemma insert_by_sorted:
  "sorted_wrt (\<lambda>a b. compare_users a b \<le> 0) ys \<Longrightarrow>
   sorted_wrt (\<lambda>a b. compare_users a b \<le> 0) (insert_by compare_users x ys)"
  by (induction ys) (auto simp: insert_by_set compare_users_le)

lemma insertion_qsort_sorted:
  "sorted_wrt (\<lambda>a b. compare_users a b \<le> 0) (insertion_qsort compare_users xs)"
  by (induction xs) (auto simp: insertion_qsort_def insert_by_sorted)

lemma print_summary_tables:
  "snd (print_summary qs clk m) = m\<lparr>users := qs compare_users (users m)\<rparr>"
  by (simp add: print_summary_def Let_def split_beta)

text \<open>
  Claim C6. Whatever \<^verbatim>\<open>qsort\<close> does within its contract (its result is a
  rearrangement of the user table, ordered by \<open>compare_users\<close>), the table is then in
  descending order of ticks, and the report is the header, the separator and one row
  for each user with more than zero ticks, in the sorted order, the row at position
  \<open>k\<close> (from 0) with the rank \<open>k + 1\<close>: users with zero ticks have no row, and the rows are
  exactly the users with positive ticks. When there is no such user, the line saying so
  is printed in place of the rows.
\<close>

theorem summary_rows_ranked:
  assumes "mset (qs compare_users (users m)) = mset (users m)"
    and "sorted_wrt (\<lambda>a b. compare_users a b \<le> 0) (qs compare_users (users m))"
  shows "(let (out, m') = print_summary qs clk m;
              srt = users m';
              pos = filter (\<lambda>x. 0 < cpu_time x) srt
          in mset srt = mset (users m)
           \<and> sorted_wrt (\<lambda>a b. cpu_time a \<ge> cpu_time b) srt
           \<and> mset pos = filter_mset (\<lambda>x. 0 < cpu_time x) (mset (users m))
           \<and> out = [Header, Separator] @
                 (if pos = [] then [No_Usage]
                  else map (\<lambda>k. Row (int k + 1) (username (pos ! k))
                                   (ticks_to_ms clk (cpu_time (pos ! k))))
                           [0..<length pos]))"
proof -
  let ?srt = "qs compare_users (users m)"
  have s: "sorted_wrt (\<lambda>a b. cpu_time a \<ge> cpu_time b) ?srt"
    using assms(2) by (simp add: compare_users_le)
  have p: "mset (filter (\<lambda>x. 0 < cpu_time x) ?srt) = filter_mset (\<lambda>x. 0 < cpu_time x) (mset (users m))"
    using assms(1) by (metis mset_filter)
  show ?thesis
    using assms(1) s p
    by (simp add: print_summary_def print_rows_eq Let_def add.commute)
qed


theorem summary_rows_ranked_witness:
  "(let us = [\<lparr>uid = 1, username = ''a'', cpu_time = 0\<rparr>,
              \<lparr>uid = 2, username = ''b'', cpu_time = 5\<rparr>,
              \<lparr>uid = 3, username = ''c'', cpu_time = 9\<rparr>];
        m = \<lparr>users = us, proc_info = []\<rparr>;
        srt = [\<lparr>uid = 3, username = ''c'', cpu_time = 9\<rparr>,
               \<lparr>uid = 2, username = ''b'', cpu_time = 5\<rparr>,
               \<lparr>uid = 1, username = ''a'', cpu_time = 0\<rparr>]
    in insertion_qsort compare_users us = srt
     \<and> mset srt = mset us
     \<and> sorted_wrt (\<lambda>a b. compare_users a b \<le> 0) srt
     \<and> fst (print_summary insertion_qsort 100 m) =
         [Header, Separator, Row 1 ''c'' 90, Row 2 ''b'' 50]
     \<and> fst (print_summary insertion_qsort 100 \<lparr>users = [\<lparr>uid = 1, username = ''a'', cpu_time = 0\<rparr>], proc_info = []\<rparr>) =
         [Header, Separator, No_Usage])"
proof -
  define us where "us = [\<lparr>uid = 1, username = ''a'', cpu_time = 0\<rparr>,
              \<lparr>uid = 2, username = ''b'', cpu_time = 5 :: 64 word\<rparr>,
              \<lparr>uid = 3, username = ''c'', cpu_time = 9\<rparr>]"
  define srt where "srt = [\<lparr>uid = 3, username = ''c'', cpu_time = 9 :: 64 word\<rparr>,
               \<lparr>uid = 2, username = ''b'', cpu_time = 5\<rparr>,
               \<lparr>uid = 1, username = ''a'', cpu_time = 0\<rparr>]"
  define m where "m = \<lparr>users = us, proc_info = []\<rparr>"
  define m1 where "m1 = \<lparr>users = [\<lparr>uid = 1, username = ''a'', cpu_time = 0 :: 64 word\<rparr>], proc_info = []\<rparr>"
  have q: "insertion_qsort compare_users us = srt"
    by (simp add: insertion_qsort_def us_def srt_def compare_users_def)
  have a: "mset (insertion_qsort compare_users (users m)) = mset (users m)"
    by (simp add: q m_def) (simp add: us_def srt_def)
  have b: "sorted_wrt (\<lambda>a b. compare_users a b \<le> 0) (insertion_qsort compare_users (users m))"
    by (simp add: q m_def) (simp add: srt_def compare_users_def)
  have a1: "mset (insertion_qsort compare_users (users m1)) = mset (users m1)"
    by (simp add: insertion_qsort_def m1_def)
  have b1: "sorted_wrt (\<lambda>a b. compare_users a b \<le> 0) (insertion_qsort compare_users (users m1))"
    by (simp add: insertion_qsort_def m1_def)
  have t: "ticks_to_ms 100 9 = 90" "ticks_to_ms 100 5 = 50"
    by (simp_all add: ticks_to_ms_def)
  have sm: "users (snd (print_summary insertion_qsort 100 m)) = srt"
    by (simp add: print_summary_tables q m_def)
  have r: "fst (print_summary insertion_qsort 100 m) = [Header, Separator, Row 1 ''c'' 90, Row 2 ''b'' 50]"
    using summary_rows_ranked [of insertion_qsort m 100, OF a b] t
    unfolding split_beta Let_def sm
    by (simp add: srt_def upt_conv_Cons)
  have r1: "fst (print_summary insertion_qsort 100 m1) = [Header, Separator, No_Usage]"
    using summary_rows_ranked [of insertion_qsort m1 100, OF a1 b1]
    unfolding split_beta Let_def print_summary_tables
    by (simp add: m1_def insertion_qsort_def)
  from q a b r r1 show ?thesis
    unfolding Let_def us_def [symmetric] srt_def [symmetric] m_def [symmetric] m1_def [symmetric]
    by (simp add: m_def)
qed

subsection \<open>Reading numbers and fields\<close>

lemma isdigit_not_space: "isdigit c \<Longrightarrow> \<not> isspace c"
  by (auto simp: isdigit_def isspace_def)

lemma isdigit_not_sign: "isdigit c \<Longrightarrow> c \<noteq> CHR ''-'' \<and> c \<noteq> CHR ''+''"
  by (auto simp: isdigit_def)

lemma isspace_simps [simp]: "isspace CHR '' ''" "isspace CHR 0x0A" "\<not> isspace CHR ''-''"
  "\<not> isspace CHR ''(''" "\<not> isspace CHR '')''"
  by (simp_all add: isspace_def)

lemma isdigit_simps [simp]: "\<not> isdigit CHR '' ''" "\<not> isdigit CHR 0x0A" "\<not> isdigit CHR ''-''"
  "\<not> isdigit CHR ''(''" "\<not> isdigit CHR '')''"
  by (simp_all add: isdigit_def)

lemma scan_number_digits:
  assumes "is_digits ds" and "rest = [] \<or> \<not> isdigit (hd rest)" and "list_all isspace ws"
  shows "scan_number (ws @ ds @ rest) = Some (False, dec_val ds, rest)"
proof -
  from assms(1) obtain d ds' where ds: "ds = d # ds'" and d: "isdigit d" and all: "\<forall>c\<in>set ds. isdigit c"
    by (cases ds) (auto simp: is_digits_def list_all_iff)
  have sk: "skip_ws (ws @ ds @ rest) = ds @ rest"
    using assms(3) d ds by (simp add: skip_ws_def dropWhile_append2 list_all_iff isdigit_not_space)
  have tw: "takeWhile isdigit (ds @ rest) = ds"
    using all assms(2) by (cases rest) (simp_all add: takeWhile_append2)
  have dw: "dropWhile isdigit (ds @ rest) = rest"
    using all assms(2) by (cases rest) (simp_all add: dropWhile_append2)
  show ?thesis
    unfolding scan_number_def sk Let_def
    using isdigit_not_sign [OF d] tw dw
    by (simp add: ds)
qed

lemma scan_number_negative:
  assumes "is_digits ds" and "rest = [] \<or> \<not> isdigit (hd rest)" and "list_all isspace ws"
  shows "scan_number (ws @ CHR ''-'' # ds @ rest) = Some (True, dec_val ds, rest)"
proof -
  from assms(1) have all: "\<forall>c\<in>set ds. isdigit c" and ne: "ds \<noteq> []"
    by (auto simp: is_digits_def list_all_iff)
  have sk: "skip_ws (ws @ CHR ''-'' # ds @ rest) = CHR ''-'' # ds @ rest"
    using assms(3) by (simp add: skip_ws_def dropWhile_append2 list_all_iff)
  have tw: "takeWhile isdigit (ds @ rest) = ds"
    using all assms(2) by (cases rest) (simp_all add: takeWhile_append2)
  have dw: "dropWhile isdigit (ds @ rest) = rest"
    using all assms(2) by (cases rest) (simp_all add: dropWhile_append2)
  show ?thesis
    unfolding scan_number_def sk Let_def
    using tw dw ne by simp
qed

lemma number_of_digits: "is_digits f \<Longrightarrow> number_of f = (False, dec_val f)"
  by (cases f) (auto simp: number_of_def is_digits_def dest: isdigit_not_sign)

lemma number_of_negative: "number_of (CHR ''-'' # ds) = (True, dec_val ds)"
  by (simp add: number_of_def)

lemma is_number_cases:
  "is_number f \<Longrightarrow> is_digits f \<or> (\<exists>ds. f = CHR ''-'' # ds \<and> is_digits ds)"
  by (cases f) (auto simp: is_number_def split: if_splits)

lemma is_number_digits: "is_digits f \<Longrightarrow> is_number f"
  by (cases f) (auto simp: is_number_def is_digits_def dest: isdigit_not_sign)

lemma scan_number_field:
  assumes "is_number f" and "rest = [] \<or> \<not> isdigit (hd rest)" and "list_all isspace ws"
  shows "scan_number (ws @ f @ rest) = Some (fst (number_of f), snd (number_of f), rest)"
proof (cases "is_digits f")
  case True
  then show ?thesis
    using scan_number_digits [OF True assms(2,3)] by (simp add: number_of_digits)
next
  case False
  with is_number_cases [OF assms(1)] obtain ds where f: "f = CHR ''-'' # ds" and ds: "is_digits ds"
    by blast
  show ?thesis
    using scan_number_negative [OF ds assms(2,3)] by (simp add: f number_of_negative)
qed

lemma scan_numbers_fields:
  assumes "list_all is_number fs" and "n \<le> length fs" and "tail = [] \<or> \<not> isdigit (hd tail)"
  shows "scan_numbers n (concat (map ((#) CHR '' '') fs) @ tail) = Some (map number_of (take n fs))"
  using assms
proof (induction n arbitrary: fs)
  case 0
  show ?case by simp
next
  case (Suc n)
  then obtain f fs' where fs: "fs = f # fs'"
    by (cases fs) auto
  let ?rest = "concat (map ((#) CHR '' '') fs') @ tail"
  have r: "?rest = [] \<or> \<not> isdigit (hd ?rest)"
    using Suc.prems(3) by (cases fs') auto
  have f: "is_number f" and fs': "list_all is_number fs'" and n: "n \<le> length fs'"
    using Suc.prems fs by simp_all
  have "scan_number ([CHR '' ''] @ f @ ?rest) = Some (fst (number_of f), snd (number_of f), ?rest)"
    by (rule scan_number_field [OF f r]) simp
  then show ?case
    using Suc.IH [OF fs' n Suc.prems(3)] by (simp add: fs)
qed

lemma scan_numbers_too_few:
  assumes "list_all is_number fs" and "length fs < n" and "tail = [] \<or> \<not> isdigit (hd tail)"
    and "scan_number tail = None"
  shows "scan_numbers n (concat (map ((#) CHR '' '') fs) @ tail) = None"
  using assms
proof (induction n arbitrary: fs)
  case 0
  then show ?case by simp
next
  case (Suc n)
  show ?case
  proof (cases fs)
    case Nil
    with Suc.prems(4) show ?thesis by simp
  next
    case (Cons f fs')
    let ?rest = "concat (map ((#) CHR '' '') fs') @ tail"
    have r: "?rest = [] \<or> \<not> isdigit (hd ?rest)"
      using Suc.prems(3) by (cases fs') auto
    have f: "is_number f" and fs': "list_all is_number fs'" and n: "length fs' < n"
      using Suc.prems Cons by simp_all
    have "scan_number ([CHR '' ''] @ f @ ?rest) = Some (fst (number_of f), snd (number_of f), ?rest)"
      by (rule scan_number_field [OF f r]) simp
    then show ?thesis
      using Suc.IH [OF fs' n Suc.prems(3,4)] by (simp add: Cons)
  qed
qed

lemma scan_fields_tail:
  assumes "list_all is_number fs" and "12 \<le> length fs" and "\<not> isspace state"
  shows "scan_fields (stat_tail state fs) = Some (lu_of (fs ! 10), lu_of (fs ! 11))"
proof -
  have "scan_numbers 12 (concat (map ((#) CHR '' '') fs) @ [CHR 0x0A]) = Some (map number_of (take 12 fs))"
    using assms by (intro scan_numbers_fields) simp_all
  then show ?thesis
    using assms(2,3) by (simp add: scan_fields_def stat_tail_def skip_ws_def lu_of_def)
qed

lemma scan_fields_too_few:
  assumes "list_all is_number fs" and "length fs < 12" and "\<not> isspace state"
  shows "scan_fields (stat_tail state fs) = None"
proof -
  have "scan_number [CHR 0x0A] = None"
    by (simp add: scan_number_def skip_ws_def)
  then have "scan_numbers 12 (concat (map ((#) CHR '' '') fs) @ [CHR 0x0A]) = None"
    using assms by (intro scan_numbers_too_few) simp_all
  then show ?thesis
    using assms(3) by (simp add: scan_fields_def stat_tail_def skip_ws_def)
qed


subsection \<open>Reading the command name\<close>

lemma read_comm_closing:
  assumes "closing d s = Some k" and "1 \<le> d"
  shows "read_comm s (int d) comm = (comm @ take (255 - length comm) (take k s), drop (Suc k) s)"
  using assms
proof (induction s arbitrary: d k comm)
  case Nil
  then show ?case by simp
next
  case (Cons c cs)
  have app: "(comm @ [c]) @ take (255 - length (comm @ [c])) xs = comm @ take (255 - length comm) (c # xs)"
    if "length comm < 255" for xs
  proof -
    from that obtain n where n: "255 - length comm = Suc n" "254 - length comm = n"
      by (cases "255 - length comm") auto
    then show ?thesis by simp
  qed
  have full: "comm @ take (255 - length comm) xs = comm" if "\<not> length comm < 255" for xs :: string
    using that by simp
  show ?case
  proof (cases "c = CHR ''(''")
    case True
    with Cons.prems obtain k' where k: "k = Suc k'" and c: "closing (d + 1) cs = Some k'"
      by auto
    have ih: "read_comm cs (int d + 1) cm = (cm @ take (255 - length cm) (take k' cs), drop (Suc k') cs)" for cm
      using Cons.IH [OF c, of cm] by (simp add: add.commute)
    show ?thesis
    proof (cases "length comm < 255")
      case l: True
      show ?thesis
        using True Cons.prems(2) l ih [of "comm @ [c]"] app [OF l, of "take k' cs"]
        by (simp add: k Let_def)
    next
      case l: False
      show ?thesis
        using True Cons.prems(2) l ih [of comm]
        by (simp add: k Let_def)
    qed
  next
    case nopen: False
    show ?thesis
    proof (cases "c = CHR '')''")
      case True
      show ?thesis
      proof (cases "d = 1")
        case d1: True
        with True Cons.prems have "k = 0" by simp
        with True d1 show ?thesis by (simp add: Let_def)
      next
        case d1: False
        with True Cons.prems obtain k' where k: "k = Suc k'" and c: "closing (d - 1) cs = Some k'"
          by auto
        from d1 Cons.prems(2) have d2: "1 \<le> d - 1" by simp
        have ih: "read_comm cs (int d - 1) cm = (cm @ take (255 - length cm) (take k' cs), drop (Suc k') cs)" for cm
          using Cons.IH [OF c d2, of cm] d2 by (simp add: of_nat_diff)
        show ?thesis
        proof (cases "length comm < 255")
          case l: True
          show ?thesis
            using True d1 Cons.prems(2) l ih [of "comm @ [c]"] app [OF l, of "take k' cs"]
            by (simp add: k Let_def)
        next
          case l: False
          show ?thesis
            using True d1 Cons.prems(2) l ih [of comm]
            by (simp add: k Let_def)
        qed
      qed
    next
      case False
      with nopen Cons.prems obtain k' where k: "k = Suc k'" and c: "closing d cs = Some k'"
        by auto
      have ih: "read_comm cs (int d) cm = (cm @ take (255 - length cm) (take k' cs), drop (Suc k') cs)" for cm
        using Cons.IH [OF c Cons.prems(2)] by simp
      show ?thesis
      proof (cases "length comm < 255")
        case l: True
        show ?thesis
          using False nopen Cons.prems(2) l ih [of "comm @ [c]"] app [OF l, of "take k' cs"]
          by (simp add: k Let_def)
      next
        case l: False
        show ?thesis
          using False nopen Cons.prems(2) l ih [of comm]
          by (simp add: k Let_def)
      qed
    qed
  qed
qed

lemma read_comm_open:
  assumes "closing 1 t = Some k"
  shows "read_comm (CHR ''('' # t) 0 [] = (take 255 (take k t), drop (Suc k) t)"
  using read_comm_closing [OF assms, of "[]"] by (simp add: Let_def)

lemma closing_well_nested:
  "well_nested d name \<Longrightarrow> closing (Suc d) (name @ CHR '')'' # rest) = Some (length name)"
proof (induction name arbitrary: d)
  case Nil
  then show ?case by simp
next
  case (Cons c cs)
  then show ?case
    by (cases d) (auto split: if_splits)
qed



lemma read_proc_cpu_time_closing:
  assumes "is_digits pidtxt" and "list_all isspace ws" and "closing 1 t = Some k"
  shows "read_comm (skip_ws (ws @ CHR ''('' # t)) 0 [] = (take 255 (take k t), drop (Suc k) t)"
    and "read_proc_cpu_time (Some (pidtxt @ ws @ CHR ''('' # t)) = scan_fields (drop (Suc k) t)"
proof -
  have sk: "skip_ws (ws @ CHR ''('' # t) = CHR ''('' # t"
    using assms(2) by (simp add: skip_ws_def dropWhile_append2 list_all_iff)
  show rc: "read_comm (skip_ws (ws @ CHR ''('' # t)) 0 [] = (take 255 (take k t), drop (Suc k) t)"
    unfolding sk by (rule read_comm_open [OF assms(3)])
  have "hd (ws @ CHR ''('' # t) = CHR ''('' \<or> isspace (hd (ws @ CHR ''('' # t))"
    using assms(2) by (cases ws) simp_all
  then have nd: "ws @ CHR ''('' # t = [] \<or> \<not> isdigit (hd (ws @ CHR ''('' # t))"
    using isdigit_not_space by auto
  have "scan_number ([] @ pidtxt @ (ws @ CHR ''('' # t)) = Some (False, dec_val pidtxt, ws @ CHR ''('' # t)"
    by (rule scan_number_digits [OF assms(1) nd]) simp
  then show "read_proc_cpu_time (Some (pidtxt @ ws @ CHR ''('' # t)) = scan_fields (drop (Suc k) t)"
    using rc by (simp add: read_proc_cpu_time_def)
qed

lemma read_proc_cpu_time_name:
  assumes "is_digits pidtxt" and "well_nested 0 name"
  shows "read_proc_cpu_time (Some (pidtxt @ '' ('' @ name @ '')'' @ rest)) = scan_fields rest"
proof -
  have c: "closing 1 (name @ CHR '')'' # rest) = Some (length name)"
    using closing_well_nested [OF assms(2), of rest] by simp
  have "read_proc_cpu_time (Some (pidtxt @ [CHR '' ''] @ CHR ''('' # (name @ CHR '')'' # rest)))
        = scan_fields (drop (Suc (length name)) (name @ CHR '')'' # rest))"
    by (rule read_proc_cpu_time_closing(2) [OF assms(1) _ c]) simp
  then show ?thesis by simp
qed

lemma split_ws_token:
  "\<forall>c\<in>set t. \<not> isspace c \<Longrightarrow> split_ws cur (t @ s) = split_ws (cur @ t) s"
  by (induction t arbitrary: cur) simp_all

lemma is_number_token: "is_number f \<Longrightarrow> f \<noteq> [] \<and> (\<forall>c\<in>set f. \<not> isspace c)"
  using is_number_cases [of f]
  by (auto simp: is_digits_def list_all_iff dest: isdigit_not_space)

lemma split_ws_fields:
  assumes "list_all is_number fs"
  shows "split_ws cur (concat (map ((#) CHR '' '') fs) @ [CHR 0x0A]) =
           (if cur = [] then [] else [cur]) @ fs"
  using assms
proof (induction fs arbitrary: cur)
  case Nil
  show ?case by simp
next
  case (Cons f fs)
  then have f: "f \<noteq> []" "\<forall>c\<in>set f. \<not> isspace c" and fs: "list_all is_number fs"
    using is_number_token [of f] by simp_all
  have "split_ws [] (f @ concat (map ((#) CHR '' '') fs) @ [CHR 0x0A]) = f # fs"
    using split_ws_token [OF f(2), of "[]"] Cons.IH [OF fs, of f] f(1) by simp
  then show ?case by simp
qed

lemma ws_fields_tail:
  assumes "list_all is_number fs" and "\<not> isspace state"
  shows "ws_fields (stat_tail state fs) = [state] # fs"
  using assms split_ws_fields [OF assms(1), of "[state]"]
  by (simp add: ws_fields_def stat_tail_def)

lemma ws_fields_record:
  assumes "list_all is_number fs" and "\<not> isspace state" and "is_digits pidtxt"
    and "\<not> list_ex isspace name"
  shows "ws_fields (stat_record pidtxt name state fs) =
           pidtxt # (CHR ''('' # name @ '')'') # [state] # fs"
proof -
  have p: "\<forall>c\<in>set pidtxt. \<not> isspace c" and pne: "pidtxt \<noteq> []"
    using assms(3) by (auto simp: is_digits_def list_all_iff dest: isdigit_not_space)
  have n: "\<forall>c\<in>set (CHR ''('' # name @ '')''). \<not> isspace c"
    using assms(4) by (auto simp: list_ex_iff)
  have 1: "split_ws [] (pidtxt @ s) = split_ws pidtxt s" for s
    using split_ws_token [OF p, of "[]" s] by simp
  have 2: "split_ws [] ((CHR ''('' # name @ '')'') @ s) = split_ws (CHR ''('' # name @ '')'') s" for s
    using split_ws_token [OF n, of "[]" s] by simp
  have 3: "split_ws [] (stat_tail state fs) = [state] # fs"
    using ws_fields_tail [OF assms(1,2)] by (simp add: ws_fields_def)
  have "stat_record pidtxt name state fs =
          pidtxt @ CHR '' '' # ((CHR ''('' # name @ '')'') @ stat_tail state fs)"
    by (simp add: stat_record_def)
  then have "ws_fields (stat_record pidtxt name state fs) =
          pidtxt # split_ws [] ((CHR ''('' # name @ '')'') @ stat_tail state fs)"
    unfolding ws_fields_def using 1 pne by simp
  also have "split_ws [] ((CHR ''('' # name @ '')'') @ stat_tail state fs) =
          (CHR ''('' # name @ '')'') # split_ws [] (tl (stat_tail state fs))"
    unfolding 2 by (simp add: stat_tail_def)
  also have "split_ws [] (tl (stat_tail state fs)) = [state] # fs"
    using 3 by (simp add: stat_tail_def)
  finally show ?thesis .
qed

lemma unat_lu_of:
  assumes "is_digits f" and "dec_val f < 2 ^ 64"
  shows "unat (lu_of f) = dec_val f"
  using assms by (simp add: lu_of_def number_of_digits conv_lu_def unat_of_nat)

lemmas number_evals = is_digits_def is_number_def isdigit_def number_of_def lu_of_def dec_val_def
  digit_val_def conv_lu_def









subsection \<open>The two counters\<close>

lemma scan_entry_no_counters:
  "read_proc_cpu_time (stat_file e) = None \<Longrightarrow> scan_entry pw e m = m \<and> initialize_entry pw e m = m"
  by (simp add: scan_entry_def initialize_entry_def Let_def)

text \<open>
  Claim C4. For a record as the kernel writes it (\<open>fs\<close> are the numeric fields after the
  state), with at least twelve numeric fields the lookup returns the values of the
  eleventh and twelfth of them. These are the 12th and 13th of the fields after the
  command name, the state being the first, and the 14th and 15th fields of the whole
  record when it is cut at white space (the name holding none). With fewer than twelve
  numeric fields the lookup fails. The value of a field of digits below \<open>2 ^ 64\<close> is the
  number it denotes. An entry whose lookup fails is skipped by the scan and by the
  baseline: the tables stay as they are.
\<close>

theorem counters_are_fields_14_and_15:
  assumes "is_digits pidtxt" and "well_nested 0 name" and "\<not> isspace state"
    and "list_all is_number fs"
  shows "(12 \<le> length fs \<longrightarrow>
            read_proc_cpu_time (Some (stat_record pidtxt name state fs)) =
              Some (lu_of (fs ! 10), lu_of (fs ! 11))
          \<and> ws_fields (stat_tail state fs) ! 11 = fs ! 10
          \<and> ws_fields (stat_tail state fs) ! 12 = fs ! 11
          \<and> (\<not> list_ex isspace name \<longrightarrow>
               ws_fields (stat_record pidtxt name state fs) ! 13 = fs ! 10
             \<and> ws_fields (stat_record pidtxt name state fs) ! 14 = fs ! 11))
       \<and> (length fs < 12 \<longrightarrow>
            read_proc_cpu_time (Some (stat_record pidtxt name state fs)) = None)
       \<and> (is_digits f \<and> dec_val f < 2 ^ 64 \<longrightarrow> unat (lu_of f) = dec_val f)
       \<and> (read_proc_cpu_time (stat_file e) = None \<longrightarrow>
            scan_entry pw e m = m \<and> initialize_entry pw e m = m)"
proof -
  have r: "read_proc_cpu_time (Some (stat_record pidtxt name state fs)) = scan_fields (stat_tail state fs)"
    unfolding stat_record_def by (rule read_proc_cpu_time_name [OF assms(1,2)])
  show ?thesis
    using scan_fields_tail [OF assms(4) _ assms(3)] scan_fields_too_few [OF assms(4) _ assms(3)]
      ws_fields_tail [OF assms(4,3)] ws_fields_record [OF assms(4,3,1)] unat_lu_of [of f]
      scan_entry_no_counters [of e pw m]
    by (simp add: r)
qed


theorem counters_are_fields_14_and_15_witness:
  "(let fs = [''1'', ''1234'', ''1234'', ''0'', ''-1'', ''4194560'', ''100'', ''200'', ''3'', ''4'',
              ''55'', ''66'', ''0'', ''0'', ''20'', ''0'', ''1''];
        r = ''1234 (bash) S 1 1234 1234 0 -1 4194560 100 200 3 4 55 66 0 0 20 0 1'' @ [CHR 0x0A];
        short = ''1234 (bash) S 1 1234 1234 0 -1 4194560 100 200 3 4 55'' @ [CHR 0x0A]
    in is_digits ''1234'' \<and> well_nested 0 ''bash'' \<and> \<not> isspace CHR ''S'' \<and> list_all is_number fs
     \<and> \<not> list_ex isspace ''bash''
     \<and> stat_record ''1234'' ''bash'' CHR ''S'' fs = r
     \<and> stat_record ''1234'' ''bash'' CHR ''S'' (take 11 fs) = short
     \<and> read_proc_cpu_time (Some r) = Some (55, 66)
     \<and> ws_fields r ! 13 = ''55'' \<and> ws_fields r ! 14 = ''66''
     \<and> read_proc_cpu_time (Some short) = None
     \<and> scan_entry Map.empty \<lparr>d_name = ''1234'', status_file = None, stat_file = Some short\<rparr>
           initial_monitor = initial_monitor
     \<and> is_digits ''55'' \<and> dec_val ''55'' = 55 \<and> unat (lu_of ''55'') = 55)"
proof -
  define fs where "fs = [''1'', ''1234'', ''1234'', ''0'', ''-1'', ''4194560'', ''100'', ''200'', ''3'', ''4'',
              ''55'', ''66'', ''0'', ''0'', ''20'', ''0'', ''1'']"
  have h: "is_digits ''1234''" "well_nested 0 ''bash''" "\<not> isspace CHR ''S''"
    by (simp_all add: number_evals isspace_def)
  have n: "list_all is_number fs"
    by (simp add: fs_def number_evals)
  have n': "list_all is_number (take 11 fs)"
    by (simp add: fs_def number_evals)
  have l: "12 \<le> length fs" "length (take 11 fs) < 12" "fs ! 10 = ''55''" "fs ! 11 = ''66''"
    by (simp_all add: fs_def)
  have v: "lu_of ''55'' = 55" "lu_of ''66'' = 66" "dec_val ''55'' = 55" "is_digits ''55''"
    by (simp_all add: number_evals)
  have w: "\<not> list_ex isspace ''bash''"
    by (simp add: isspace_def)
  have r: "stat_record ''1234'' ''bash'' CHR ''S'' fs =
      ''1234 (bash) S 1 1234 1234 0 -1 4194560 100 200 3 4 55 66 0 0 20 0 1'' @ [CHR 0x0A]"
    by (simp add: stat_record_def stat_tail_def fs_def)
  have s: "stat_record ''1234'' ''bash'' CHR ''S'' (take 11 fs) =
      ''1234 (bash) S 1 1234 1234 0 -1 4194560 100 200 3 4 55'' @ [CHR 0x0A]"
    by (simp add: stat_record_def stat_tail_def fs_def)
  from counters_are_fields_14_and_15 [OF h n, of "''55''"]
    counters_are_fields_14_and_15 [OF h n', of "''55''"
      "\<lparr>d_name = ''1234'', status_file = None,
        stat_file = Some (stat_record ''1234'' ''bash'' CHR ''S'' (take 11 fs))\<rparr>"
      Map.empty initial_monitor]
  show ?thesis
    unfolding Let_def fs_def [symmetric] r [symmetric] s [symmetric]
    using h n l v w by simp
qed

subsection \<open>The owner lookup and its sentinel\<close>

lemma fgets_line:
  "length l < n - 1 \<Longrightarrow> CHR 0x0A \<notin> set l \<Longrightarrow>
   fgets n (l @ CHR 0x0A # s) = Some (l @ [CHR 0x0A], s)"
proof -
  have "length l < k \<Longrightarrow> CHR 0x0A \<notin> set l \<Longrightarrow> fgets_chars k (l @ CHR 0x0A # s) = (l @ [CHR 0x0A], s)" for k
  proof (induction l arbitrary: k)
    case Nil
    then show ?case by (cases k) simp_all
  next
    case (Cons c cs)
    then show ?case by (cases k) auto
  qed
  then show "length l < n - 1 \<Longrightarrow> CHR 0x0A \<notin> set l \<Longrightarrow> ?thesis"
    by (simp add: fgets_def)
qed


lemma uid_loop_other_line:
  assumes "take 4 (l @ [CHR 0x0A]) \<noteq> ''Uid:''" and "length l < 255" and "CHR 0x0A \<notin> set l"
  shows "uid_loop (l @ CHR 0x0A # s) u = uid_loop s u"
  using assms fgets_line [of l 256 s]
  by (subst uid_loop.simps) simp


lemma uid_loop_uid_line:
  assumes "is_digits ds" and "set ws \<subseteq> {CHR '' '', CHR 0x09}"
    and "rest = [] \<or> \<not> isdigit (hd rest)" and "CHR 0x0A \<notin> set rest"
    and "4 + length ws + length ds + length rest < 255"
  shows "uid_loop (''Uid:'' @ ws @ ds @ rest @ CHR 0x0A # s) u = conv_u False (dec_val ds)"
proof -
  let ?l = "''Uid:'' @ ws @ ds @ rest"
  have "CHR 0x0A \<notin> set ds"
    using assms(1) isdigit_simps(2) by (auto simp: is_digits_def list_all_iff)
  moreover have "CHR 0x0A \<notin> set ws"
    using assms(2) by auto
  ultimately have nl: "CHR 0x0A \<notin> set ?l"
    using assms(4) by simp
  have len: "length ?l < 256 - 1"
    using assms(5) by simp
  have "fgets 256 (?l @ CHR 0x0A # s) = Some (?l @ [CHR 0x0A], s)"
    using len nl by (rule fgets_line)
  then have f: "fgets 256 (''Uid:'' @ ws @ ds @ rest @ CHR 0x0A # s) = Some (?l @ [CHR 0x0A], s)"
    by simp
  have sp: "list_all isspace ws"
  proof -
    have "isspace CHR '' ''" "isspace CHR 0x09"
      by (simp_all add: isspace_def)
    with assms(2) show ?thesis
      unfolding list_all_iff by blast
  qed
  have r: "rest @ [CHR 0x0A] = [] \<or> \<not> isdigit (hd (rest @ [CHR 0x0A]))"
    using assms(3) by (cases rest) simp_all
  have sn: "scan_number (ws @ ds @ (rest @ [CHR 0x0A])) = Some (False, dec_val ds, rest @ [CHR 0x0A])"
    by (rule scan_number_digits [OF assms(1) r sp])
  have "uid_loop (''Uid:'' @ ws @ ds @ rest @ CHR 0x0A # s) u =
      (case scan_number (drop 4 (?l @ [CHR 0x0A])) of None \<Rightarrow> u | Some (neg, v, _) \<Rightarrow> conv_u neg v)"
    by (subst uid_loop.simps, subst f) simp
  also have "drop 4 (?l @ [CHR 0x0A]) = ws @ ds @ (rest @ [CHR 0x0A])"
    by simp
  finally show ?thesis
    by (simp only: sn option.case prod.case)
qed


lemma uid_loop_other_lines:
  assumes "\<forall>l\<in>set pre. take 4 (l @ [CHR 0x0A]) \<noteq> ''Uid:'' \<and> length l < 255 \<and> CHR 0x0A \<notin> set l"
  shows "uid_loop (concat (map (\<lambda>l. l @ [CHR 0x0A]) pre) @ s) u = uid_loop s u"
  using assms
proof (induction pre)
  case Nil
  show ?case by simp
next
  case (Cons l ls)
  then have "uid_loop (l @ CHR 0x0A # (concat (map (\<lambda>l. l @ [CHR 0x0A]) ls) @ s)) u
      = uid_loop (concat (map (\<lambda>l. l @ [CHR 0x0A]) ls) @ s) u"
    by (intro uid_loop_other_line) simp_all
  with Cons show ?case by simp
qed

lemma scan_entry_skipped:
  "get_process_uid (status_file e) = - 1 \<Longrightarrow> scan_entry pw e m = m"
  by (simp add: scan_entry_def)

lemma initialize_entry_skipped:
  "get_process_uid (status_file e) = - 1 \<Longrightarrow> initialize_entry pw e m = m"
  by (simp add: initialize_entry_def)

text \<open>
  Claim C10. The owner lookup answers \<^verbatim>\<open>(uid_t)-1\<close>, which is 4294967295, when the
  status file cannot be opened. It gives the same answer for a status file that can be
  read and whose \<^verbatim>\<open>Uid:\<close> line, after any lines with other tags, names the uid
  4294967295. An entry for which the lookup gives this answer is skipped, by a sampling
  scan and by the baseline: both tables stay as they are, so the process is neither
  tracked nor attributed.
\<close>

theorem uid_sentinel_process_skipped:
  "get_process_uid None = - 1
   \<and> unat (- 1 :: uid_t) = 4294967295
   \<and> ((\<forall>l\<in>set pre. take 4 (l @ [CHR 0x0A]) \<noteq> ''Uid:'' \<and> length l < 255 \<and> CHR 0x0A \<notin> set l)
        \<and> set ws \<subseteq> {CHR '' '', CHR 0x09}
        \<and> is_digits ds \<and> dec_val ds = 4294967295
        \<and> (rest = [] \<or> \<not> isdigit (hd rest)) \<and> CHR 0x0A \<notin> set rest
        \<and> 4 + length ws + length ds + length rest < 255 \<longrightarrow>
      get_process_uid
        (Some (concat (map (\<lambda>l. l @ [CHR 0x0A]) pre) @ ''Uid:'' @ ws @ ds @ rest @ CHR 0x0A # s))
      = - 1)
   \<and> (get_process_uid (status_file e) = - 1 \<longrightarrow>
        scan_entry pw e m = m \<and> initialize_entry pw e m = m)"
proof -
  have "conv_u False 4294967295 = - 1"
    by (simp add: conv_u_def conv_lu_def)
  moreover have "unat (- 1 :: uid_t) = 4294967295"
    by (simp add: unsigned_minus_1_eq_mask mask_eq_exp_minus_1)
  ultimately show ?thesis
    using uid_loop_other_lines [of pre "''Uid:'' @ ws @ ds @ rest @ CHR 0x0A # s" "- 1"]
      uid_loop_uid_line [of ds ws rest s "- 1"]
    by (simp add: get_process_uid_def scan_entry_skipped initialize_entry_skipped)
qed

theorem uid_sentinel_process_skipped_witness:
  "(let status = ''Name:'' @ [CHR 0x09] @ ''worker'' @ [CHR 0x0A] @
                 ''Pid:'' @ [CHR 0x09] @ ''4321'' @ [CHR 0x0A] @
                 ''Uid:'' @ [CHR 0x09] @ ''4294967295'' @ [CHR 0x09] @ ''4294967295'' @ [CHR 0x0A] @
                 ''Gid:'' @ [CHR 0x09] @ ''100'' @ [CHR 0x0A];
        e = \<lparr>d_name = ''4321'', status_file = Some status,
             stat_file = Some (''4321 (worker) R 1 1 1 0 -1 0 0 0 0 0 55 66 0'' @ [CHR 0x0A])\<rparr>;
        m = \<lparr>users = [], proc_info = [new_proc 4321 7 5 5]\<rparr>
    in get_process_uid (Some status) = - 1
     \<and> scan_entry Map.empty e m = m
     \<and> initialize_entry Map.empty e initial_monitor = initial_monitor)"
proof -
  define pre where "pre = [''Name:'' @ [CHR 0x09] @ ''worker'', ''Pid:'' @ [CHR 0x09] @ ''4321'']"
  define s where "s = ''Gid:'' @ [CHR 0x09] @ ''100'' @ [CHR 0x0A]"
  define status where "status = ''Name:'' @ [CHR 0x09] @ ''worker'' @ [CHR 0x0A] @
                 ''Pid:'' @ [CHR 0x09] @ ''4321'' @ [CHR 0x0A] @
                 ''Uid:'' @ [CHR 0x09] @ ''4294967295'' @ [CHR 0x09] @ ''4294967295'' @ [CHR 0x0A] @
                 ''Gid:'' @ [CHR 0x09] @ ''100'' @ [CHR 0x0A]"
  define e where "e = \<lparr>d_name = ''4321'', status_file = Some status,
             stat_file = Some (''4321 (worker) R 1 1 1 0 -1 0 0 0 0 0 55 66 0'' @ [CHR 0x0A])\<rparr>"
  have st: "status = concat (map (\<lambda>l. l @ [CHR 0x0A]) pre) @ ''Uid:'' @ [CHR 0x09] @ ''4294967295'' @
      ([CHR 0x09] @ ''4294967295'') @ CHR 0x0A # s"
    by (simp add: status_def pre_def s_def)
  have h: "\<forall>l\<in>set pre. take 4 (l @ [CHR 0x0A]) \<noteq> ''Uid:'' \<and> length l < 255 \<and> CHR 0x0A \<notin> set l"
    "set [CHR 0x09] \<subseteq> {CHR '' '', CHR 0x09}" "is_digits ''4294967295''"
    "dec_val ''4294967295'' = 4294967295"
    "[CHR 0x09] @ ''4294967295'' = [] \<or> \<not> isdigit (hd ([CHR 0x09] @ ''4294967295''))"
    "CHR 0x0A \<notin> set ([CHR 0x09] @ ''4294967295'')"
    "4 + length [CHR 0x09] + length ''4294967295'' + length ([CHR 0x09] @ ''4294967295'') < 255"
    by (simp_all add: pre_def number_evals)
  have u: "get_process_uid (Some status) = - 1"
    using uid_sentinel_process_skipped [of pre "[CHR 0x09]" "''4294967295''" "[CHR 0x09] @ ''4294967295''" s] h
    unfolding st by blast
  then have "get_process_uid (status_file e) = - 1"
    by (simp add: e_def)
  then have "scan_entry Map.empty e m = m \<and> initialize_entry Map.empty e m = m" for m
    using uid_sentinel_process_skipped [of pre "[CHR 0x09]" "''4294967295''" "[CHR 0x09] @ ''4294967295''" s e Map.empty m]
    by blast
  with u show ?thesis
    unfolding Let_def status_def [symmetric] e_def [symmetric] by simp
qed

subsection \<open>The totals of a user over a scan\<close>

lemma scan_entry_observation:
  "scan_entry pw e m =
     (case observation e of None \<Rightarrow> m
      | Some (p, u, utime, stime) \<Rightarrow> scan_account pw p u utime stime m)"
  by (auto simp: scan_entry_def observation_def Let_def split: option.splits)

lemma initialize_entry_observation:
  "initialize_entry pw e m =
     (case observation e of None \<Rightarrow> m
      | Some (p, u, utime, stime) \<Rightarrow> initialize_account pw p u utime stime m)"
  by (auto simp: initialize_entry_def observation_def Let_def split: option.splits)

lemma unat_delta_ticks_le: "unat (delta_ticks new stored) \<le> unat new"
  by (auto simp: delta_ticks_def unat_sub)

lemma add_ticks_no_wrap:
  fixes c du ds :: u64
  assumes "unat c + (a + b) < 2 ^ 64" and "unat du \<le> a" and "unat ds \<le> b"
  shows "c \<le> c + (du + ds) \<and> unat (c + (du + ds)) \<le> unat c + (a + b)"
proof -
  have 1: "unat (du + ds) = unat du + unat ds"
    using assms by (intro unat_add_lem [THEN iffD1]) simp
  have 2: "unat (c + (du + ds)) = unat c + unat (du + ds)"
    using assms 1 by (intro unat_add_lem [THEN iffD1]) simp
  show ?thesis
    using assms 1 2 by (simp add: word_le_nat_alt)
qed

lemma scan_account_user:
  assumes "j < length (users m)"
  shows "length (users m) \<le> length (users (scan_account pw p u utime stime m))
       \<and> uid (users (scan_account pw p u utime stime m) ! j) = uid (users m ! j)
       \<and> (unat (cpu_time (users m ! j)) + (unat utime + unat stime) < 2 ^ 64 \<longrightarrow>
            cpu_time (users m ! j) \<le> cpu_time (users (scan_account pw p u utime stime m) ! j)
          \<and> unat (cpu_time (users (scan_account pw p u utime stime m) ! j))
              \<le> unat (cpu_time (users m ! j)) + (unat utime + unat stime))"
proof (cases "find_proc_info m p")
  case None
  then show ?thesis
    using assms by (simp add: scan_account_untracked initialize_account_eq nth_append)
next
  case (Some i)
  obtain user m1 where f: "find_or_create_user pw u m = (user, m1)"
    by (cases "find_or_create_user pw u m")
  show ?thesis
  proof (cases user)
    case None
    with f have "m1 = m" by (simp add: focu_none)
    with None show ?thesis
      unfolding scan_account_tracked [OF Some f] by simp
  next
    case (Some k)
    from focu_found [OF f [unfolded Some]]
    have k: "k < length (users m1)" and l: "length (users m) \<le> length (users m1)"
      and t: "take (length (users m)) (users m1) = users m" by simp_all
    have same: "users m1 ! j = users m ! j"
      using assms t by (metis nth_take)
    show ?thesis
    proof (cases "k = j")
      case True
      show ?thesis
        unfolding scan_account_tracked [OF \<open>find_proc_info m p = Some i\<close> f]
        using Some True k l same
          add_ticks_no_wrap [of "cpu_time (users m ! j)" "unat utime" "unat stime"
            "delta_ticks utime (last_utime (proc_info m ! i))"
            "delta_ticks stime (last_stime (proc_info m ! i))"]
          unat_delta_ticks_le
        by simp
    next
      case False
      show ?thesis
        unfolding scan_account_tracked [OF \<open>find_proc_info m p = Some i\<close> f]
        using Some False k l same by simp
    qed
  qed
qed

lemma scan_entry_user:
  assumes "j < length (users m)"
  shows "length (users m) \<le> length (users (scan_entry pw e m))
       \<and> uid (users (scan_entry pw e m) ! j) = uid (users m ! j)
       \<and> (unat (cpu_time (users m ! j)) + reported_ticks e < 2 ^ 64 \<longrightarrow>
            cpu_time (users m ! j) \<le> cpu_time (users (scan_entry pw e m) ! j)
          \<and> unat (cpu_time (users (scan_entry pw e m) ! j))
              \<le> unat (cpu_time (users m ! j)) + reported_ticks e)"
proof (cases "observation e")
  case None
  then show ?thesis by (simp add: scan_entry_observation)
next
  case (Some obs)
  obtain p u utime stime where "obs = (p, u, utime, stime)"
    by (cases obs)
  with Some show ?thesis
    using scan_account_user [OF assms, of pw p u utime stime]
    by (simp add: scan_entry_observation reported_ticks_def)
qed

lemma fold_scan_entry_user:
  assumes "j < length (users m)"
  shows "length (users m) \<le> length (users (fold (scan_entry pw) es m))
       \<and> uid (users (fold (scan_entry pw) es m) ! j) = uid (users m ! j)
       \<and> (unat (cpu_time (users m ! j)) + sum_list (map reported_ticks es) < 2 ^ 64 \<longrightarrow>
            cpu_time (users m ! j) \<le> cpu_time (users (fold (scan_entry pw) es m) ! j)
          \<and> unat (cpu_time (users (fold (scan_entry pw) es m) ! j))
              \<le> unat (cpu_time (users m ! j)) + sum_list (map reported_ticks es))"
  using assms
proof (induction es arbitrary: m)
  case Nil
  show ?case by simp
next
  case (Cons e es)
  let ?m1 = "scan_entry pw e m"
  note s = scan_entry_user [OF Cons.prems, of pw e]
  from s have j1: "j < length (users ?m1)"
    using Cons.prems by simp
  note ih = Cons.IH [OF j1]
  show ?case
  proof (intro conjI impI)
    show "length (users m) \<le> length (users (fold (scan_entry pw) (e # es) m))"
      using s ih by simp
    show "uid (users (fold (scan_entry pw) (e # es) m) ! j) = uid (users m ! j)"
      using s ih by simp
  next
    assume b: "unat (cpu_time (users m ! j)) + sum_list (map reported_ticks (e # es)) < 2 ^ 64"
    then have b1: "unat (cpu_time (users m ! j)) + reported_ticks e < 2 ^ 64"
      by simp
    with s have le1: "cpu_time (users m ! j) \<le> cpu_time (users ?m1 ! j)"
      and u1: "unat (cpu_time (users ?m1 ! j)) \<le> unat (cpu_time (users m ! j)) + reported_ticks e"
      by simp_all
    from u1 b have b2: "unat (cpu_time (users ?m1 ! j)) + sum_list (map reported_ticks es) < 2 ^ 64"
      by simp
    with ih have le2: "cpu_time (users ?m1 ! j) \<le> cpu_time (users (fold (scan_entry pw) es ?m1) ! j)"
      and u2: "unat (cpu_time (users (fold (scan_entry pw) es ?m1) ! j))
                 \<le> unat (cpu_time (users ?m1 ! j)) + sum_list (map reported_ticks es)"
      by simp_all
    show "cpu_time (users m ! j) \<le> cpu_time (users (fold (scan_entry pw) (e # es) m) ! j)"
      using le1 le2 by simp
    show "unat (cpu_time (users (fold (scan_entry pw) (e # es) m) ! j))
            \<le> unat (cpu_time (users m ! j)) + sum_list (map reported_ticks (e # es))"
      using u1 u2 by simp
  qed
qed


lemma is_pid_dir_digits: "list_all isdigit s \<Longrightarrow> is_pid_dir s"
  by (induction s) simp_all

lemma observation_proc_entry:
  assumes "is_digits pidtxt" and "is_digits uidtxt" and "length uidtxt < 200"
    and "conv_u False (dec_val uidtxt) \<noteq> - 1" and "is_digits utime" and "is_digits stime"
  shows "observation (proc_entry pidtxt uidtxt utime stime) =
           Some (atoi pidtxt, conv_u False (dec_val uidtxt), lu_of utime, lu_of stime)"
proof -
  let ?fs = "[''1'', ''1'', ''1'', ''0'', ''-1'', ''0'', ''0'', ''0'', ''0'', ''0'', utime, stime]"
  have p: "is_pid_dir pidtxt"
    using assms(1) by (simp add: is_digits_def is_pid_dir_digits)
  have "uid_loop (''Uid:'' @ [CHR 0x09] @ uidtxt @ [] @ CHR 0x0A # []) (- 1) = conv_u False (dec_val uidtxt)"
    using assms(2,3) by (intro uid_loop_uid_line) simp_all
  then have u: "get_process_uid (Some (''Uid:'' @ [CHR 0x09] @ uidtxt @ [CHR 0x0A])) =
      conv_u False (dec_val uidtxt)"
    by (simp add: get_process_uid_def)
  have n: "list_all is_number ?fs"
    using is_number_digits [OF assms(5)] is_number_digits [OF assms(6)]
    by (simp add: number_evals)
  have "read_proc_cpu_time (Some (stat_record pidtxt ''cmd'' CHR ''R'' ?fs)) =
      scan_fields (stat_tail CHR ''R'' ?fs)"
    unfolding stat_record_def by (rule read_proc_cpu_time_name [OF assms(1)]) simp
  also have "\<dots> = Some (lu_of (?fs ! 10), lu_of (?fs ! 11))"
    by (rule scan_fields_tail [OF n]) (simp_all add: isspace_def)
  finally have r: "read_proc_cpu_time (Some (stat_record pidtxt ''cmd'' CHR ''R'' ?fs)) =
      Some (lu_of utime, lu_of stime)"
    by simp
  show ?thesis
    using p u r assms(4) by (simp add: observation_def proc_entry_def)
qed

lemma initialize_entry_users:
  "\<exists>ns. users (initialize_entry pw e m) = users m @ ns \<and> list_all (\<lambda>x. cpu_time x = 0) ns"
proof (cases "observation e")
  case None
  then show ?thesis by (simp add: initialize_entry_observation)
next
  case (Some obs)
  then show ?thesis
    by (cases obs) (simp add: initialize_entry_observation initialize_account_eq new_user_def)
qed

lemma fold_initialize_entry_users:
  "\<exists>ns. users (fold (initialize_entry pw) es m) = users m @ ns \<and> list_all (\<lambda>x. cpu_time x = 0) ns"
proof (induction es arbitrary: m)
  case Nil
  show ?case by simp
next
  case (Cons e es)
  obtain ns where 1: "users (initialize_entry pw e m) = users m @ ns" "list_all (\<lambda>x. cpu_time x = 0) ns"
    using initialize_entry_users by blast
  obtain ns' where 2: "users (fold (initialize_entry pw) es (initialize_entry pw e m)) =
      users (initialize_entry pw e m) @ ns'" "list_all (\<lambda>x. cpu_time x = 0) ns'"
    using Cons.IH by blast
  show ?case
    using 1 2 by (intro exI [of _ "ns @ ns'"]) simp
qed

lemma initialize_users:
  "take (num_users m) (users (initialize pw dir m)) = users m
   \<and> list_all (\<lambda>x. cpu_time x = 0) (drop (num_users m) (users (initialize pw dir m)))"
proof (cases dir)
  case None
  then show ?thesis by (simp add: initialize_def num_users_def)
next
  case (Some es)
  obtain ns where "users (fold (initialize_entry pw) es m) = users m @ ns"
    "list_all (\<lambda>x. cpu_time x = 0) ns"
    using fold_initialize_entry_users by blast
  with Some show ?thesis by (simp add: initialize_def num_users_def)
qed

lemma created_user_zero:
  assumes "find_user (users m) u = None" and "find_or_create_user pw u m = (Some j, m1)"
  shows "cpu_time (users m1 ! j) = 0"
  using assms by (auto simp: focu_cases num_users_def new_user_def split: if_splits)

text \<open>
  Claim C7, as the code has it. A user entry is created with zero ticks, by the
  baseline and by a sampling scan, and the baseline changes no entry that exists. Over
  one sampling scan no user entry is removed or given another uid, the ticks of an
  entry are a non-negative number, and they do not decrease provided that the ticks the
  entry has, plus the sum of all counters read in this scan, stay below \<open>2 ^ 64\<close>: each
  addition is made modulo \<open>2 ^ 64\<close>.
\<close>

theorem user_ticks_nondecreasing_below_wrap:
  "(let m' = scan_processes pw dir m
    in num_users m \<le> num_users m'
     \<and> (\<forall>j<num_users m.
           uid (users m' ! j) = uid (users m ! j)
         \<and> 0 \<le> uint (cpu_time (users m' ! j))
         \<and> (unat (cpu_time (users m ! j)) + tick_total dir < 2 ^ 64 \<longrightarrow>
              cpu_time (users m ! j) \<le> cpu_time (users m' ! j))))
   \<and> (let m0 = initialize pw dir m
      in take (num_users m) (users m0) = users m
       \<and> list_all (\<lambda>x. cpu_time x = 0) (drop (num_users m) (users m0)))
   \<and> (find_user (users m) u = None \<longrightarrow>
        (\<forall>j m1. find_or_create_user pw u m = (Some j, m1) \<longrightarrow> cpu_time (users m1 ! j) = 0))"
proof -
  have "num_users m \<le> num_users (scan_processes pw dir m)
     \<and> (\<forall>j<num_users m.
           uid (users (scan_processes pw dir m) ! j) = uid (users m ! j)
         \<and> 0 \<le> uint (cpu_time (users (scan_processes pw dir m) ! j))
         \<and> (unat (cpu_time (users m ! j)) + tick_total dir < 2 ^ 64 \<longrightarrow>
              cpu_time (users m ! j) \<le> cpu_time (users (scan_processes pw dir m) ! j)))"
  proof (cases dir)
    case None
    then show ?thesis by (simp add: scan_processes_def)
  next
    case (Some es)
    have "num_users m \<le> num_users (fold (scan_entry pw) es m)"
    proof (cases "users m")
      case Nil
      then show ?thesis by (simp add: num_users_def)
    next
      case (Cons x xs)
      then show ?thesis
        using fold_scan_entry_user [of 0 m pw es] by (simp add: num_users_def)
    qed
    then show ?thesis
      using Some fold_scan_entry_user [of _ m pw es]
      by (simp add: scan_processes_def tick_total_def num_users_def)
  qed
  then show ?thesis
    unfolding Let_def using initialize_users [of m pw dir] created_user_zero [of m u pw]
    by blast
qed

lemmas entry_evals = number_evals conv_u_def atoi_def strtol_def scan_number_def skip_ws_def
  isspace_def

theorem user_ticks_nondecreasing_below_wrap_witness:
  "(let m = initialize Map.empty (Some [proc_entry ''10'' ''7'' ''5'' ''5'']) initial_monitor;
        dir = Some [proc_entry ''10'' ''7'' ''8'' ''9''];
        m' = scan_processes Map.empty dir m
    in users m = [\<lparr>uid = 7, username = ''7'', cpu_time = 0\<rparr>]
     \<and> find_user (users initial_monitor) 7 = None
     \<and> tick_total dir = 17
     \<and> unat (cpu_time (users m ! 0)) + tick_total dir < 2 ^ 64
     \<and> cpu_time (users m ! 0) \<le> cpu_time (users m' ! 0)
     \<and> users m' = [\<lparr>uid = 7, username = ''7'', cpu_time = 7\<rparr>])"
proof -
  define m where "m = initialize Map.empty (Some [proc_entry ''10'' ''7'' ''5'' ''5'']) initial_monitor"
  define dir where "dir = Some [proc_entry ''10'' ''7'' ''8'' ''9'']"
  have o1: "observation (proc_entry ''10'' ''7'' ''5'' ''5'') = Some (10, 7, 5, 5)"
    by (subst observation_proc_entry) (simp_all add: entry_evals)
  have o2: "observation (proc_entry ''10'' ''7'' ''8'' ''9'') = Some (10, 7, 8, 9)"
    by (subst observation_proc_entry) (simp_all add: entry_evals)
  have m: "m = \<lparr>users = [\<lparr>uid = 7, username = ''7'', cpu_time = 0\<rparr>],
                proc_info = [new_proc 10 7 5 5]\<rparr>"
    by (simp add: m_def initialize_def initialize_entry_observation o1 initialize_account_eq
        initial_monitor_def num_users_def num_procs_def MAX_USERS_def MAX_PROCS_def new_user_def
        show_nat.simps)
  have t: "tick_total dir = 17"
    by (simp add: dir_def tick_total_def reported_ticks_def o2)
  have f: "find_proc_info m 10 = Some 0" "find_or_create_user Map.empty 7 m = (Some 0, m)"
    by (simp_all add: m find_proc_info_def new_proc_def focu_cases)
  have m': "users (scan_processes Map.empty dir m) = [\<lparr>uid = 7, username = ''7'', cpu_time = 7\<rparr>]"
    by (simp add: dir_def scan_processes_def scan_entry_observation o2
        scan_account_tracked [OF f]) (simp add: m new_proc_def delta_ticks_def)
  from user_ticks_nondecreasing_below_wrap [where m = m and pw = Map.empty and dir = dir and u = 7]
    user_ticks_nondecreasing_below_wrap [where m = initial_monitor and pw = Map.empty and dir = dir and u = 7] show ?thesis
    unfolding Let_def m_def [symmetric] dir_def [symmetric]
    using t m' by (simp add: m num_users_def initial_monitor_def)
qed

text \<open>
  The claim as it was stated fails where the sum wraps around. Process 10 of user 7 is
  in the baseline with the counters (0, 0); the first scan reads (18446744073709551615,
  0) and the second (18446744073709551615, 1). The total of user 7 is
  18446744073709551615 after the first scan and 0 after the second.
\<close>

theorem user_ticks_wrap_to_zero:
  "(let m0 = initialize Map.empty (Some [proc_entry ''10'' ''7'' ''0'' ''0'']) initial_monitor;
        m1 = scan_processes Map.empty
               (Some [proc_entry ''10'' ''7'' ''18446744073709551615'' ''0'']) m0;
        m2 = scan_processes Map.empty
               (Some [proc_entry ''10'' ''7'' ''18446744073709551615'' ''1'']) m1
    in users m0 = [\<lparr>uid = 7, username = ''7'', cpu_time = 0\<rparr>]
     \<and> users m1 = [\<lparr>uid = 7, username = ''7'', cpu_time = 18446744073709551615\<rparr>]
     \<and> users m2 = [\<lparr>uid = 7, username = ''7'', cpu_time = 0\<rparr>])"
proof -
  have o0: "observation (proc_entry ''10'' ''7'' ''0'' ''0'') = Some (10, 7, 0, 0)"
    by (subst observation_proc_entry) (simp_all add: entry_evals)
  have o1: "observation (proc_entry ''10'' ''7'' ''18446744073709551615'' ''0'') = Some (10, 7, - 1, 0)"
    by (subst observation_proc_entry) (simp_all add: entry_evals)
  have o2: "observation (proc_entry ''10'' ''7'' ''18446744073709551615'' ''1'') = Some (10, 7, - 1, 1)"
    by (subst observation_proc_entry) (simp_all add: entry_evals)
  define m0 where "m0 = \<lparr>users = [\<lparr>uid = 7, username = ''7'', cpu_time = 0 :: u64\<rparr>],
                proc_info = [new_proc 10 7 0 0]\<rparr>"
  define m1 where "m1 = \<lparr>users = [\<lparr>uid = 7, username = ''7'', cpu_time = - 1 :: u64\<rparr>],
                proc_info = [new_proc 10 7 (- 1) 0]\<rparr>"
  define m2 where "m2 = \<lparr>users = [\<lparr>uid = 7, username = ''7'', cpu_time = 0 :: u64\<rparr>],
                proc_info = [new_proc 10 7 (- 1) 1]\<rparr>"
  have i: "initialize Map.empty (Some [proc_entry ''10'' ''7'' ''0'' ''0'']) initial_monitor = m0"
    by (simp add: m0_def initialize_def initialize_entry_observation o0 initialize_account_eq
        initial_monitor_def num_users_def num_procs_def MAX_USERS_def MAX_PROCS_def new_user_def
        show_nat.simps)
  have f0: "find_proc_info m0 10 = Some 0" "find_or_create_user Map.empty 7 m0 = (Some 0, m0)"
    by (simp_all add: m0_def find_proc_info_def new_proc_def focu_cases)
  have s1: "scan_processes Map.empty (Some [proc_entry ''10'' ''7'' ''18446744073709551615'' ''0'']) m0 = m1"
    by (simp add: scan_processes_def scan_entry_observation o1 scan_account_tracked [OF f0])
       (simp add: m0_def m1_def new_proc_def delta_ticks_def)
  have f1: "find_proc_info m1 10 = Some 0" "find_or_create_user Map.empty 7 m1 = (Some 0, m1)"
    by (simp_all add: m1_def find_proc_info_def new_proc_def focu_cases)
  have s2: "scan_processes Map.empty (Some [proc_entry ''10'' ''7'' ''18446744073709551615'' ''1'']) m1 = m2"
    by (simp add: scan_processes_def scan_entry_observation o2 scan_account_tracked [OF f1])
       (simp add: m1_def m2_def new_proc_def delta_ticks_def)
  show ?thesis
    unfolding Let_def i s1 s2 by (simp add: m0_def m1_def m2_def)
qed

subsection \<open>The program as a whole\<close>












subsection \<open>The example of the specification\<close>

text \<open>
  The model runs the end-to-end example of the specification: with a duration of 2 and a
  clock rate of 100, user 7 ends with 7 ticks and the report has the one row of 70
  milliseconds.
\<close>

lemma end_to_end_example:
  "exit_status (main example_env [''monitor'', ''2'']) = 0
   \<and> scans (main example_env [''monitor'', ''2'']) = 2
   \<and> users (tables (main example_env [''monitor'', ''2''])) =
       [\<lparr>uid = 7, username = ''7'', cpu_time = 7\<rparr>]
   \<and> stdout_lines (main example_env [''monitor'', ''2'']) = [Header, Separator, Row 1 ''7'' 70]"
proof -
  have o0: "observation (proc_entry ''10'' ''7'' ''5'' ''5'') = Some (10, 7, 5, 5)"
    by (subst observation_proc_entry) (simp_all add: entry_evals)
  have o1: "observation (proc_entry ''10'' ''7'' ''8'' ''9'') = Some (10, 7, 8, 9)"
    by (subst observation_proc_entry) (simp_all add: entry_evals)
  have o2: "observation (proc_entry ''20'' ''7'' ''0'' ''0'') = Some (20, 7, 0, 0)"
    by (subst observation_proc_entry) (simp_all add: entry_evals)
  define u where "u = (\<lambda>t :: u64. [\<lparr>uid = 7, username = ''7'', cpu_time = t\<rparr>])"
  define m0 where "m0 = \<lparr>users = u 0, proc_info = [new_proc 10 7 5 5]\<rparr>"
  define m1 where "m1 = \<lparr>users = u 7, proc_info = [new_proc 10 7 8 9]\<rparr>"
  define m2 where "m2 = \<lparr>users = u 7, proc_info = [new_proc 10 7 8 9, new_proc 20 7 0 0]\<rparr>"
  have i: "initialize Map.empty (Some [proc_entry ''10'' ''7'' ''5'' ''5'']) initial_monitor = m0"
    by (simp add: m0_def u_def initialize_def initialize_entry_observation o0 initialize_account_eq
        initial_monitor_def num_users_def num_procs_def MAX_USERS_def MAX_PROCS_def new_user_def
        show_nat.simps)
  have f0: "find_proc_info m0 10 = Some 0" "find_or_create_user Map.empty 7 m0 = (Some 0, m0)"
    by (simp_all add: m0_def u_def find_proc_info_def new_proc_def focu_cases)
  have a1: "scan_account Map.empty 10 7 8 9 m0 = m1"
    unfolding scan_account_tracked [OF f0]
    by (simp add: m0_def m1_def u_def new_proc_def delta_ticks_def)
  have f1: "find_proc_info m1 10 = Some 0" "find_or_create_user Map.empty 7 m1 = (Some 0, m1)"
    by (simp_all add: m1_def u_def find_proc_info_def new_proc_def focu_cases)
  have a2: "scan_account Map.empty 10 7 8 9 m1 = m1"
    unfolding scan_account_tracked [OF f1]
    by (simp add: m1_def u_def new_proc_def delta_ticks_def)
  have f2: "find_proc_info m1 20 = None"
    by (simp add: m1_def find_proc_info_def new_proc_def)
  have a3: "scan_account Map.empty 20 7 0 0 m1 = m2"
    unfolding scan_account_untracked [OF f2]
    by (simp add: initialize_account_eq m1_def m2_def u_def num_procs_def MAX_PROCS_def)
  have s1: "scan_processes Map.empty (Some [proc_entry ''10'' ''7'' ''8'' ''9'']) m0 = m1"
    by (simp add: scan_processes_def scan_entry_observation o1 a1)
  have s2: "scan_processes Map.empty
      (Some [proc_entry ''10'' ''7'' ''8'' ''9'', proc_entry ''20'' ''7'' ''0'' ''0'']) m1 = m2"
    by (simp add: scan_processes_def scan_entry_observation o1 o2 a2 a3)
  have l: "monitor_loop example_env 0 2 m0 = (2, m2)"
    by (simp add: monitor_loop.simps example_env_def s1 s2)
  have d: "sint (atoi ''2'') = 2"
    by (simp add: entry_evals)
  have p: "print_summary insertion_qsort 100 m2 = ([Header, Separator, Row 1 ''7'' 70], m2)"
    by (simp add: print_summary_def insertion_qsort_def m2_def u_def ticks_to_ms_def)
  have c: "get_clk_tck 100 = 100"
    by (simp add: get_clk_tck_def)
  have "main example_env [''monitor'', ''2''] =
      \<lparr>exit_status = 0, stderr_text = [], stdout_lines = [Header, Separator, Row 1 ''7'' 70],
       scans = 2, tables = m2\<rparr>"
    using d l i p c by (simp add: main_def example_env_def)
  then show ?thesis
    by (simp add: m2_def u_def)
qed

end
